theory Spec2Isabelle
  imports Main
begin

section \<open>The GVariant signature validator and reader of ell (gvariant-util.c)\<close>

text \<open>
  Memory is modelled at the level of bytes, and a byte is a \<^typ>\<open>char\<close>.

  \<^item> A \<^verbatim>\<open>const char *\<close> that is only read forwards (every signature pointer of the
    file) is the list of the bytes of its object from the pointer on: \<open>*sig\<close> is the head,
    \<open>sig + 1\<close> the tail, and the difference of two pointers into the same object the
    difference of the lengths. Reading at the empty list is a read past the end of the
    object and is reported as \<open>OutOfBounds\<close>. A C string \<open>s\<close> is the list \<open>s @ [NUL]\<close>.
  \<^item> The data buffer is a byte list (the heap); a \<^verbatim>\<open>const void *\<close> into it is an
    integer offset from the start of the buffer, \<open>NULL\<close> is \<open>None\<close> where the code
    stores \<open>NULL\<close>. A read at an offset outside the buffer is \<open>OutOfBounds\<close>.
    Pointer arithmetic is integer arithmetic on the offsets and does not wrap around:
    where the code adds a size close to \<open>2 ^ 64\<close> to a pointer, a 64-bit machine wraps
    and the model does not. The theorems of the claims evaluate the code far from there.
  \<^item> \<^verbatim>\<open>size_t\<close> is a natural number below \<open>2 ^ 64\<close>; each operation on it wraps
    around explicitly (\<open>size_t\<close>). \<^verbatim>\<open>int\<close> quantities computed from signatures (sizes,
    alignments, counts) stay far below \<open>2 ^ 31\<close> for signatures of at most 255 bytes,
    which is all the local buffers of the code admit, and are not wrapped.
  \<^item> Every behaviour the C standard leaves undefined is an \<open>error\<close> value: a read
    outside an object (\<open>OutOfBounds\<close>), the use of a null pointer (\<open>NullPointer\<close>),
    a write past the end of a local array (\<open>BufferOverflow\<close>) and a \<^verbatim>\<open>memcpy\<close> whose
    length is a negative difference converted to \<^verbatim>\<open>size_t\<close> (\<open>BadLength\<close>). A local
    buffer holds exactly what was copied into it and its terminator.
\<close>

datatype error = OutOfBounds | NullPointer | BufferOverflow | BadLength

abbreviation NUL :: char where
  "NUL \<equiv> CHR 0x00"

definition ebind :: "error + 'a \<Rightarrow> ('a \<Rightarrow> error + 'b) \<Rightarrow> error + 'b" where
  "ebind m f = (case m of Inl e \<Rightarrow> Inl e | Inr x \<Rightarrow> f x)"

lemma ebind_simps [simp]:
  "ebind (Inl e) f = Inl e"
  "ebind (Inr x) f = f x"
  by (simp_all add: ebind_def)

lemma ebind_weak_cong [cong]:
  "m = m' \<Longrightarrow> ebind m f = ebind m' f"
  by simp

lemma ebind_cong [fundef_cong]:
  "m = m' \<Longrightarrow> (\<And>x. m' = Inr x \<Longrightarrow> f x = f' x) \<Longrightarrow> ebind m f = ebind m' f'"
  by (simp add: ebind_def split: sum.splits)

subsection \<open>Type tables\<close>

definition simple_types :: string where
  "simple_types = ''sogybnqiuxtdh''"

definition variable_types :: string where
  "variable_types = ''sogav''"

definition fixed_types :: string where
  "fixed_types = ''bynqhiuxtd''"

text \<open>
  \<^verbatim>\<open>strchr(str, c) != NULL\<close>. The terminating null character is part of the string for
  \<^verbatim>\<open>strchr\<close>, so the search for \<open>NUL\<close> always finds it.
\<close>

definition strchr :: "string \<Rightarrow> char \<Rightarrow> bool" where
  "strchr str c \<longleftrightarrow> c \<in> set str \<or> c = NUL"

fun get_basic_alignment :: "char \<Rightarrow> nat" where
  "get_basic_alignment c =
    (if c = CHR ''b'' then 1
     else if c = CHR ''y'' then 1
     else if c = CHR ''n'' \<or> c = CHR ''q'' then 2
     else if c = CHR ''i'' \<or> c = CHR ''u'' then 4
     else if c = CHR ''x'' \<or> c = CHR ''t'' \<or> c = CHR ''d'' then 8
     else if c = CHR ''s'' \<or> c = CHR ''g'' \<or> c = CHR ''o'' then 1
     else if c = CHR ''h'' then 4
     else if c = CHR ''v'' then 8
     else 0)"

fun get_basic_fixed_size :: "char \<Rightarrow> nat" where
  "get_basic_fixed_size c =
    (if c = CHR ''b'' then 1
     else if c = CHR ''y'' then 1
     else if c = CHR ''n'' \<or> c = CHR ''q'' then 2
     else if c = CHR ''i'' \<or> c = CHR ''u'' then 4
     else if c = CHR ''x'' \<or> c = CHR ''t'' \<or> c = CHR ''d'' then 8
     else if c = CHR ''h'' then 4
     else 0)"

subsection \<open>validate_next_type\<close>

text \<open>
  The result is \<open>Inr None\<close> for the \<open>NULL\<close> return and \<open>Inr (Some (p, a))\<close> for the
  returned pointer \<open>p\<close> with \<open>*out_alignment = a\<close>. \<open>validate_members\<close> is the
  \<^verbatim>\<open>while (sig && *sig != ')')\<close> loop of the struct case with its \<open>max_alignment\<close>.
\<close>

function validate_next_type :: "char list \<Rightarrow> error + (char list \<times> nat) option"
  and validate_members :: "char list \<Rightarrow> nat \<Rightarrow> error + (char list \<times> nat) option"
where
  "validate_next_type [] = Inl OutOfBounds"
| "validate_next_type (s # sig) =
    (if s = NUL then Inr None
     else if strchr simple_types s \<or> s = CHR ''v'' then
       Inr (Some (sig, get_basic_alignment s))
     else if s = CHR ''a'' then validate_next_type sig
     else if s = CHR ''{'' then
       (case sig of
          [] \<Rightarrow> Inl OutOfBounds
        | k # sig1 \<Rightarrow>
            if \<not> strchr simple_types k then Inr None
            else ebind (validate_next_type sig1) (\<lambda>r.
              case r of
                None \<Rightarrow> Inr None
              | Some (sig2, out_alignment) \<Rightarrow>
                  (case sig2 of
                     [] \<Rightarrow> Inl OutOfBounds
                   | c # sig3 \<Rightarrow>
                       if c \<noteq> CHR ''}'' then Inr None
                       else Inr (Some (sig3,
                         if get_basic_alignment k > out_alignment
                         then get_basic_alignment k else out_alignment)))))
     else if s = CHR ''('' then validate_members sig 1
     else Inr None)"
| "validate_members [] max_alignment = Inl OutOfBounds"
| "validate_members (c # sig) max_alignment =
    (if c = CHR '')'' then Inr (Some (sig, max_alignment))
     else ebind (validate_next_type (c # sig)) (\<lambda>r.
       case r of
         None \<Rightarrow> Inr None
       | Some (sig1, alignment) \<Rightarrow>
           validate_members sig1
             (if alignment > max_alignment then alignment else max_alignment)))"
  by pat_completeness auto


lemma validate_shorter_p:
  "validate_next_type_validate_members_dom (Inl sig) \<Longrightarrow>
     validate_next_type sig = Inr (Some (r, a)) \<Longrightarrow> length r < length sig"
  "validate_next_type_validate_members_dom (Inr (sig, m)) \<Longrightarrow>
     validate_members sig m = Inr (Some (r, a)) \<Longrightarrow> length r < length sig"
proof (induction sig and sig m arbitrary: r a and r a rule: validate_next_type_validate_members.pinduct)
  case 1
  then show ?case by (simp add: validate_next_type.psimps)
next
  case (2 s sig)
  show ?case
  proof (cases "s = NUL \<or> strchr simple_types s \<or> s = CHR ''v''")
    case True
    with 2(1,5) show ?thesis
      by (auto simp: validate_next_type.psimps split: if_splits)
  next
    case b: False
    show ?thesis
    proof (cases "s = CHR ''a''")
      case True
      with b 2(1,5) have "validate_next_type sig = Inr (Some (r, a))"
        by (simp add: validate_next_type.psimps)
      with 2(2) b True have "length r < length sig" by blast
      then show ?thesis by simp
    next
      case na: False
      show ?thesis
      proof (cases "s = CHR ''{''")
        case True
        with b na 2(1,5) obtain k sig1 sig2 al where
          sg: "sig = k # sig1" and k: "strchr simple_types k"
          and v: "validate_next_type sig1 = Inr (Some (sig2, al))"
          and r: "sig2 = CHR ''}'' # r"
          by (auto simp: validate_next_type.psimps ebind_def
              split: list.splits if_splits sum.splits option.splits)
        from 2(3) b na True sg k v have "length sig2 < length sig1" by blast
        with sg r show ?thesis by simp
      next
        case nb: False
        show ?thesis
        proof (cases "s = CHR ''(''")
          case True
          with b na nb 2(1,5) have "validate_members sig 1 = Inr (Some (r, a))"
            by (simp add: validate_next_type.psimps)
          with 2(4) b na nb True have "length r < length sig" by blast
          then show ?thesis by simp
        next
          case False
          with b na nb 2(1,5) show ?thesis
            by (simp add: validate_next_type.psimps)
        qed
      qed
    qed
  qed
next
  case (3 m)
  then show ?case by (simp add: validate_members.psimps)
next
  case (4 c sig m)
  show ?case
  proof (cases "c = CHR '')''")
    case True
    with 4(1,4) show ?thesis by (simp add: validate_members.psimps)
  next
    case False
    with 4(1,4) obtain sig1 al where
      v: "validate_next_type (c # sig) = Inr (Some (sig1, al))"
      and m: "validate_members sig1 (if al > m then al else m) = Inr (Some (r, a))"
      by (auto simp: validate_members.psimps ebind_def split: sum.splits option.splits)
    from 4(2) False v have l1: "length sig1 < length (c # sig)" by blast
    from 4(3) False v m have "length r < length sig1" by blast
    with l1 show ?thesis by simp
  qed
qed

termination validate_next_type
proof (relation "measure (\<lambda>x. case x of Inl sig \<Rightarrow> 2 * length sig | Inr (sig, m) \<Rightarrow> 2 * length sig + 1)", goal_cases)
  case 1 show ?case by simp
next
  case 2 then show ?case by simp
next
  case 3 then show ?case by simp
next
  case 4 then show ?case by simp
next
  case 5 then show ?case by simp
next
  case (6 c sig max_alignment x xa xb y)
  then show ?case using validate_shorter_p(1) by fastforce
qed

declare validate_next_type.simps [simp del] validate_members.simps [simp del]

lemma validate_shorter_both:
  "validate_next_type sig = Inr (Some (r, a)) \<Longrightarrow> length r < length sig"
  "validate_members sig m = Inr (Some (r, a)) \<Longrightarrow> length r < length sig"
proof (induction sig and sig m arbitrary: r a and r a rule: validate_next_type_validate_members.induct)
  case 1
  then show ?case by (simp add: validate_next_type.simps)
next
  case (2 s sig)
  show ?case
  proof (cases "s = NUL \<or> strchr simple_types s \<or> s = CHR ''v''")
    case True
    with 2(4) show ?thesis
      by (auto simp: validate_next_type.simps split: if_splits)
  next
    case b: False
    show ?thesis
    proof (cases "s = CHR ''a''")
      case True
      with b 2(4) have "validate_next_type sig = Inr (Some (r, a))"
        by (simp add: validate_next_type.simps)
      with 2(1) b True have "length r < length sig" by blast
      then show ?thesis by simp
    next
      case na: False
      show ?thesis
      proof (cases "s = CHR ''{''")
        case True
        with b na 2(4) obtain k sig1 sig2 al where
          sg: "sig = k # sig1" and k: "strchr simple_types k"
          and v: "validate_next_type sig1 = Inr (Some (sig2, al))"
          and r: "sig2 = CHR ''}'' # r"
          by (auto simp: validate_next_type.simps ebind_def
              split: list.splits if_splits sum.splits option.splits)
        from 2(2) b na True sg k v have "length sig2 < length sig1" by blast
        with sg r show ?thesis by simp
      next
        case nb: False
        show ?thesis
        proof (cases "s = CHR ''(''")
          case True
          with b na nb 2(4) have "validate_members sig 1 = Inr (Some (r, a))"
            by (simp add: validate_next_type.simps)
          with 2(3) b na nb True have "length r < length sig" by blast
          then show ?thesis by simp
        next
          case False
          with b na nb 2(4) show ?thesis
            by (simp add: validate_next_type.simps)
        qed
      qed
    qed
  qed
next
  case (3 m)
  then show ?case by (simp add: validate_members.simps)
next
  case (4 c sig m)
  show ?case
  proof (cases "c = CHR '')''")
    case True
    with 4(3) show ?thesis by (simp add: validate_members.simps)
  next
    case False
    with 4(3) obtain sig1 al where
      v: "validate_next_type (c # sig) = Inr (Some (sig1, al))"
      and m: "validate_members sig1 (if al > m then al else m) = Inr (Some (r, a))"
      by (auto simp: validate_members.simps ebind_def split: sum.splits option.splits)
    from 4(1) False v have l1: "length sig1 < length (c # sig)" by blast
    from 4(2) False v m have "length r < length sig1" by blast
    with l1 show ?thesis by simp
  qed
qed

lemma validate_shorter:
  "validate_next_type sig = Inr (Some (r, a)) \<Longrightarrow> length r < length sig"
  by (rule validate_shorter_both(1))

subsection \<open>Signature queries\<close>

function gvariant_valid_signature :: "char list \<Rightarrow> error + bool" where
  "gvariant_valid_signature s =
    ebind (validate_next_type s) (\<lambda>r.
      case r of
        None \<Rightarrow> Inr False
      | Some (s1, a) \<Rightarrow>
          (case s1 of
             [] \<Rightarrow> Inl OutOfBounds
           | c # _ \<Rightarrow> if c \<noteq> NUL then gvariant_valid_signature s1 else Inr True))"
  by pat_completeness auto
termination
  by (relation "measure length") (auto dest: validate_shorter)

declare gvariant_valid_signature.simps [simp del]

text \<open>The loop of \<^verbatim>\<open>_gvariant_num_children\<close> with its counter; \<open>- 1\<close> on failure.\<close>

function num_children_loop :: "char list \<Rightarrow> int \<Rightarrow> error + int" where
  "num_children_loop s num_children =
    ebind (validate_next_type s) (\<lambda>r.
      case r of
        None \<Rightarrow> Inr (- 1)
      | Some (s1, a) \<Rightarrow>
          (case s1 of
             [] \<Rightarrow> Inl OutOfBounds
           | c # _ \<Rightarrow>
               if c \<noteq> NUL then num_children_loop s1 (num_children + 1)
               else Inr (num_children + 1)))"
  by pat_completeness auto
termination
  by (relation "measure (\<lambda>(s, n). length s)") (auto dest: validate_shorter)

declare num_children_loop.simps [simp del]

definition gvariant_num_children :: "char list \<Rightarrow> error + int" where
  "gvariant_num_children sig = num_children_loop sig 0"

function get_alignment_loop :: "char list \<Rightarrow> nat \<Rightarrow> error + nat" where
  "get_alignment_loop s max_alignment =
    (case s of
       [] \<Rightarrow> Inl OutOfBounds
     | c # _ \<Rightarrow>
         if c \<noteq> NUL \<and> max_alignment \<noteq> 8 then
           ebind (validate_next_type s) (\<lambda>r.
             case r of
               None \<Rightarrow> Inr 0
             | Some (s1, alignment) \<Rightarrow>
                 get_alignment_loop s1
                   (if alignment > max_alignment then alignment else max_alignment))
         else Inr max_alignment)"
  by pat_completeness auto
termination
  by (relation "measure (\<lambda>(s, n). length s)") (auto dest: validate_shorter)

declare get_alignment_loop.simps [simp del]

definition gvariant_get_alignment :: "char list \<Rightarrow> error + nat" where
  "gvariant_get_alignment sig = get_alignment_loop sig 1"

fun gvariant_is_fixed_size :: "char list \<Rightarrow> error + bool" where
  "gvariant_is_fixed_size [] = Inl OutOfBounds"
| "gvariant_is_fixed_size (c # sig) =
    (if c \<noteq> NUL then
       (if strchr variable_types c then Inr False else gvariant_is_fixed_size sig)
     else Inr True)"

text \<open>
  Modelled from the spec: the macro \<^verbatim>\<open>align_len\<close> comes from a header that is not among
  the sources. The spec calls it \<open>align_up\<close>: the length rounded up to the next multiple
  of the boundary.
\<close>

definition align_len :: "nat \<Rightarrow> nat \<Rightarrow> nat" where
  "align_len n boundary = (n + boundary - 1) div boundary * boundary"

text \<open>
  The loop of \<^verbatim>\<open>_gvariant_get_fixed_size\<close> with its locals \<open>size\<close> and
  \<open>max_alignment\<close>; the recursive call on \<open>s + 1\<close> starts a fresh loop.
\<close>

function get_fixed_size_loop :: "char list \<Rightarrow> nat \<Rightarrow> nat \<Rightarrow> error + nat" where
  "get_fixed_size_loop s size' max_alignment =
    (case s of
       [] \<Rightarrow> Inl OutOfBounds
     | c # s1 \<Rightarrow>
         if c = NUL then Inr (align_len size' max_alignment)
         else if strchr variable_types c then Inr 0
         else if strchr fixed_types c then
           get_fixed_size_loop s1
             (align_len size' (get_basic_alignment c) + get_basic_fixed_size c)
             (if get_basic_alignment c > max_alignment
              then get_basic_alignment c else max_alignment)
         else if c = CHR ''}'' \<or> c = CHR '')'' then Inr (align_len size' max_alignment)
         else
           ebind (validate_next_type s) (\<lambda>v.
             case v of
               None \<Rightarrow> Inr 0
             | Some (p, alignment) \<Rightarrow>
                 ebind
                   (if c = CHR ''('' then
                      (case s1 of
                         [] \<Rightarrow> Inl OutOfBounds
                       | c1 # _ \<Rightarrow>
                           if c1 = CHR '')'' then Inr 1 else get_fixed_size_loop s1 0 1)
                    else get_fixed_size_loop s1 0 1)
                   (\<lambda>r.
                     if r = 0 then Inr 0
                     else get_fixed_size_loop p (align_len size' alignment + r)
                       (if alignment > max_alignment then alignment else max_alignment))))"
  by pat_completeness auto
termination
  by (relation "measure (\<lambda>(s, n, m). length s)") (auto dest: validate_shorter)

declare get_fixed_size_loop.simps [simp del]

definition gvariant_get_fixed_size :: "char list \<Rightarrow> error + nat" where
  "gvariant_get_fixed_size sig = get_fixed_size_loop sig 0 1"

subsection \<open>The heap, sizes and word reads\<close>

type_synonym heap = "char list"

definition size_t :: "int \<Rightarrow> nat" where
  "size_t x = nat (x mod 2 ^ 64)"

definition offset_length :: "nat \<Rightarrow> nat \<Rightarrow> nat" where
  "offset_length size' n_offsets =
    (if size_t (int size' + int n_offsets) \<le> 0xff then 1
     else if size_t (int size' + int n_offsets * 2) \<le> 0xffff then 2
     else if size_t (int size' + int n_offsets * 4) \<le> 0xffffffff then 4
     else 8)"

text \<open>The \<open>n\<close> bytes at offset \<open>a\<close>, as \<^verbatim>\<open>memcpy\<close> reads them.\<close>

definition read_bytes :: "heap \<Rightarrow> int \<Rightarrow> nat \<Rightarrow> error + char list" where
  "read_bytes h a n =
    (if n = 0 then Inr []
     else if 0 \<le> a \<and> a + int n \<le> int (length h) then Inr (take n (drop (nat a) h))
     else Inl OutOfBounds)"

fun le_value :: "char list \<Rightarrow> nat" where
  "le_value [] = 0"
| "le_value (b # bs) = of_char b + 256 * le_value bs"

definition read_word_le :: "heap \<Rightarrow> int \<Rightarrow> nat \<Rightarrow> error + nat" where
  "read_word_le h p n = ebind (read_bytes h p n) (\<lambda>bs. Inr (le_value bs))"

text \<open>
  Modelled from the spec: the accessors \<^verbatim>\<open>get_u8\<close>, \<^verbatim>\<open>get_s16\<close>, ... come from a header
  that is not among the sources. The spec has them read little-endian values of the
  given width; the signed ones are read in two's complement.
\<close>

definition signed_of :: "nat \<Rightarrow> nat \<Rightarrow> int" where
  "signed_of bits v = (if v < 2 ^ (bits - 1) then int v else int v - 2 ^ bits)"

definition get_u8 :: "heap \<Rightarrow> int \<Rightarrow> error + nat" where
  "get_u8 h p = read_word_le h p 1"

definition get_u16 :: "heap \<Rightarrow> int \<Rightarrow> error + nat" where
  "get_u16 h p = read_word_le h p 2"

definition get_s16 :: "heap \<Rightarrow> int \<Rightarrow> error + int" where
  "get_s16 h p = ebind (read_word_le h p 2) (\<lambda>v. Inr (signed_of 16 v))"

definition get_u32 :: "heap \<Rightarrow> int \<Rightarrow> error + nat" where
  "get_u32 h p = read_word_le h p 4"

definition get_s32 :: "heap \<Rightarrow> int \<Rightarrow> error + int" where
  "get_s32 h p = ebind (read_word_le h p 4) (\<lambda>v. Inr (signed_of 32 v))"

definition get_u64 :: "heap \<Rightarrow> int \<Rightarrow> error + nat" where
  "get_u64 h p = read_word_le h p 8"

definition get_s64 :: "heap \<Rightarrow> int \<Rightarrow> error + int" where
  "get_s64 h p = ebind (read_word_le h p 8) (\<lambda>v. Inr (signed_of 64 v))"

text \<open>
  \<^verbatim>\<open>memchr(p, 0, n)\<close> scans forwards and stops at the first \<open>NUL\<close>; \<^verbatim>\<open>memrchr(p, 0, n)\<close>
  scans backwards from \<open>p + n - 1\<close> and stops at the last one. Every byte they read
  before they stop must lie in the buffer.
\<close>

definition memchr :: "heap \<Rightarrow> int \<Rightarrow> nat \<Rightarrow> error + int option" where
  "memchr h p n =
    (if n = 0 then Inr None
     else if p < 0 \<or> int (length h) \<le> p then Inl OutOfBounds
     else
       let seg = take n (drop (nat p) h) in
       if NUL \<in> set seg then
         Inr (Some (p + int (length (takeWhile (\<lambda>c. c \<noteq> NUL) seg))))
       else if n \<le> length seg then Inr None
       else Inl OutOfBounds)"

definition memrchr :: "heap \<Rightarrow> int \<Rightarrow> nat \<Rightarrow> error + int option" where
  "memrchr h p n =
    (if n = 0 then Inr None
     else if int (length h) < p + int n \<or> p + int n \<le> 0 then Inl OutOfBounds
     else
       let lo = nat (max p 0);
           seg = take (nat (p + int n) - lo) (drop lo h) in
       if NUL \<in> set seg then
         Inr (Some (int lo + int (length seg) - 1
                      - int (length (takeWhile (\<lambda>c. c \<noteq> NUL) (rev seg)))))
       else if p < 0 then Inl OutOfBounds
       else Inr None)"

definition strlen :: "char list \<Rightarrow> nat" where
  "strlen s = length (takeWhile (\<lambda>c. c \<noteq> NUL) s)"

subsection \<open>The reader\<close>

text \<open>
  Modelled from the spec: \<^verbatim>\<open>struct l_dbus_message_iter\<close> and
  \<^verbatim>\<open>enum dbus_container_type\<close> are declared in headers that are not among the
  sources. The fields are those the code assigns; the spec lists the same fields and the
  four container kinds. The message handle is opaque.
\<close>

datatype dbus_container_type =
  DBUS_CONTAINER_TYPE_STRUCT
| DBUS_CONTAINER_TYPE_DICT_ENTRY
| DBUS_CONTAINER_TYPE_ARRAY
| DBUS_CONTAINER_TYPE_VARIANT

record l_dbus_message_iter =
  message :: nat
  sig_start :: "char list"
  sig_len :: nat
  sig_pos :: nat
  data :: int
  len :: nat
  pos :: nat
  container_type :: dbus_container_type
  offsets :: "int option"

text \<open>The local \<^verbatim>\<open>struct gvariant_type_info\<close> of the layout analyzer.\<close>

record gvariant_type_info =
  c_sig_start :: nat
  c_sig_end :: nat
  c_fixed_size :: bool
  c_alignment :: nat
  c_end :: nat

text \<open>
  The copy of the signature window into \<^verbatim>\<open>char subsig[256]\<close>: \<^verbatim>\<open>memcpy\<close> of
  \<open>sig_end - sig_start\<close> bytes and a terminator when \<open>sig_end\<close> is given (here as the
  difference \<open>sig_end - sig_start\<close>), \<^verbatim>\<open>strcpy\<close> when it is \<open>NULL\<close>.
\<close>

definition copy_subsig :: "char list \<Rightarrow> int option \<Rightarrow> error + char list" where
  "copy_subsig sig_start' sig_end =
    (case sig_end of
       Some d \<Rightarrow>
         if d < 0 then Inl BadLength
         else if d > 255 then Inl BufferOverflow
         else if int (length sig_start') < d then Inl OutOfBounds
         else Inr (take (nat d) sig_start' @ [NUL])
     | None \<Rightarrow>
         if NUL \<notin> set sig_start' then Inl OutOfBounds
         else if strlen sig_start' > 255 then Inl BufferOverflow
         else Inr (takeWhile (\<lambda>c. c \<noteq> NUL) sig_start' @ [NUL]))"

text \<open>
  The first loop of \<^verbatim>\<open>gvariant_iter_init_internal\<close>, with \<open>k = n_children - i\<close>
  iterations to go (\<open>i + 1 < n_children\<close> is \<open>k - 1 \<noteq> 0\<close>). It walks the signature
  memory itself, not the copy. When \<^verbatim>\<open>validate_next_type\<close> returns \<open>NULL\<close> the code
  subtracts \<open>sig_start\<close> from the null pointer and passes it to the next call, which
  dereferences it: \<open>NullPointer\<close>. Offsets are stored in \<^verbatim>\<open>uint8_t\<close>, the alignment in
  a bit-field of four bits.
\<close>

function scan_children ::
  "char list \<Rightarrow> char list \<Rightarrow> nat \<Rightarrow> nat \<Rightarrow> error + (gvariant_type_info list \<times> nat)"
where
  "scan_children sig_start' p k num_variable =
    (if k = 0 then Inr ([], num_variable)
     else
       let cs = (length sig_start' - length p) mod 256 in
       ebind (validate_next_type p) (\<lambda>r.
         case r of
           None \<Rightarrow> Inl NullPointer
         | Some (p1, alignment) \<Rightarrow>
             let ce = (length sig_start' - length p1) mod 256 in
             if ce < cs then Inl BadLength
             else if length sig_start' < ce then Inl OutOfBounds
             else
               let subsig = take (ce - cs) (drop cs sig_start') @ [NUL] in
               ebind (gvariant_is_fixed_size subsig) (\<lambda>fixed.
                 ebind (if fixed then gvariant_get_fixed_size subsig else Inr 0) (\<lambda>size'.
                   ebind (scan_children sig_start' p1 (k - 1)
                            (if \<not> fixed \<and> k - 1 \<noteq> 0 then num_variable + 1
                             else num_variable))
                     (\<lambda>(children, nv).
                       Inr (\<lparr> c_sig_start = cs, c_sig_end = ce, c_fixed_size = fixed,
                              c_alignment = alignment mod 16, c_end = size' \<rparr> # children,
                            nv))))))"
  by pat_completeness auto
termination
proof (relation "measure (\<lambda>(s, p, k, n). k)", goal_cases)
  case 1
  show ?case by (rule wf_measure)
next
  case (2 sig_start' p k num_variable)
  from \<open>k \<noteq> 0\<close> show ?case by simp
qed

declare scan_children.simps [simp del]

text \<open>
  The second loop, over the children from index \<open>i\<close> on; \<open>prev_end\<close> is
  \<open>children[i-1].end\<close>. \<open>Inr False\<close> is \<^verbatim>\<open>goto fail\<close>.
\<close>

fun layout_children ::
  "heap \<Rightarrow> int \<Rightarrow> nat \<Rightarrow> nat \<Rightarrow> nat \<Rightarrow> gvariant_type_info list \<Rightarrow> nat \<Rightarrow> nat \<Rightarrow> nat \<Rightarrow> nat
    \<Rightarrow> error + bool"
where
  "layout_children h data' len' offset_len last_offset [] i prev_end v num_variable = Inr True"
| "layout_children h data' len' offset_len last_offset (c # cs) i prev_end v num_variable =
    (if c_fixed_size c then
       (if i = 0 then
          layout_children h data' len' offset_len last_offset cs (i + 1) (c_end c) v num_variable
        else
          let o' = size_t (int (align_len prev_end (c_alignment c)));
              e = size_t (int (c_end c) + int o') in
          if e > len' then Inr False
          else layout_children h data' len' offset_len last_offset cs (i + 1) e v num_variable)
     else if num_variable = 0 then
       layout_children h data' len' offset_len last_offset cs (i + 1) last_offset v num_variable
     else
       ebind (read_word_le h (data' + int len' - int (offset_len * (v + 1))) offset_len) (\<lambda>e.
         if e > len' then Inr False
         else layout_children h data' len' offset_len last_offset cs (i + 1) e (v + 1)
                (num_variable - 1)))"

text \<open>
  \<^verbatim>\<open>gvariant_iter_init_internal\<close>. \<open>iter0\<close> is the content of \<open>*iter\<close> before the call;
  the result is the return value and the content after it.
\<close>

definition gvariant_iter_init_internal ::
  "heap \<Rightarrow> l_dbus_message_iter \<Rightarrow> nat \<Rightarrow> dbus_container_type \<Rightarrow> char list \<Rightarrow> int option
    \<Rightarrow> int \<Rightarrow> nat \<Rightarrow> error + (bool \<times> l_dbus_message_iter)"
where
  "gvariant_iter_init_internal h iter0 message' type' sig_start' sig_end data' len' =
    (let offset_len = offset_length len' 0 in
     ebind (copy_subsig sig_start' sig_end) (\<lambda>subsig.
       let iter1 = iter0 \<lparr> message := message', sig_start := sig_start',
                           sig_len := strlen subsig, sig_pos := 0,
                           data := data', len := len', pos := 0 \<rparr> in
       ebind (gvariant_num_children subsig) (\<lambda>nc.
         let n_children = nat (nc mod 256) in
         ebind (scan_children sig_start' sig_start' n_children 0) (\<lambda>(children, num_variable).
           if len' < num_variable * offset_len then Inr (False, iter1)
           else
             let last_offset = len' - num_variable * offset_len;
                 iter2 = iter1 \<lparr> offsets :=
                           (if num_variable > 0 then Some (data' + int len' - int offset_len)
                            else None) \<rparr> in
             ebind (layout_children h data' len' offset_len last_offset children 0 0 0
                      num_variable) (\<lambda>ok.
               if \<not> ok then Inr (False, iter2)
               else
                 let iter3 = iter2 \<lparr> container_type := type' \<rparr> in
                 (case children of
                    [] \<Rightarrow> Inl OutOfBounds
                  | c0 # _ \<Rightarrow>
                      if type' = DBUS_CONTAINER_TYPE_ARRAY \<and> \<not> c_fixed_size c0 then
                        ebind (read_word_le h (data' + int len' - int offset_len) offset_len)
                          (\<lambda>offset. Inr (True, iter3 \<lparr> offsets := Some (data' + int offset) \<rparr>))
                      else Inr (True, iter3)))))))"

definition gvariant_iter_init ::
  "heap \<Rightarrow> l_dbus_message_iter \<Rightarrow> nat \<Rightarrow> char list \<Rightarrow> int option \<Rightarrow> int \<Rightarrow> nat
    \<Rightarrow> error + (bool \<times> l_dbus_message_iter)"
where
  "gvariant_iter_init h iter0 message' sig_start' sig_end data' len' =
    gvariant_iter_init_internal h iter0 message' DBUS_CONTAINER_TYPE_STRUCT
      sig_start' sig_end data' len'"

subsection \<open>next_item\<close>

text \<open>
  The code after the label \<^verbatim>\<open>done\<close>: the bound check on the start of the child and the
  advance of \<open>pos\<close>. The result pairs the returned pointer (\<open>None\<close> for \<open>NULL\<close>) and
  \<open>*out_item_size\<close> with the reader after the call.
\<close>

definition next_item_done ::
  "l_dbus_message_iter \<Rightarrow> nat \<Rightarrow> (int \<times> nat) option \<times> l_dbus_message_iter"
where
  "next_item_done iter item_size =
    (let start = data iter + int (pos iter) in
     if start \<ge> data iter + int (len iter) then (None, iter)
     else (Some (start, item_size),
           iter \<lparr> pos := size_t (int (pos iter) + int item_size) \<rparr>))"

text \<open>
  The second half of \<^verbatim>\<open>next_item\<close>, from the advance of \<open>sig_pos\<close> on: \<open>sig_len'\<close>,
  \<open>alignment\<close>, \<open>fixed_size\<close> and \<open>last_member\<close> are the locals the first half has
  computed, \<open>sig1\<close> is the local buffer cut after the type.
\<close>

definition next_item_extent ::
  "heap \<Rightarrow> l_dbus_message_iter \<Rightarrow> nat \<Rightarrow> nat \<Rightarrow> bool \<Rightarrow> bool \<Rightarrow> char list
    \<Rightarrow> error + ((int \<times> nat) option \<times> l_dbus_message_iter)"
where
  "next_item_extent h iter sig_len' alignment fixed_size last_member sig1 =
    (let iter1 =
           (if container_type iter \<noteq> DBUS_CONTAINER_TYPE_ARRAY
            then iter \<lparr> sig_pos := sig_pos iter + sig_len' \<rparr> else iter);
         iter2 = iter1 \<lparr> pos := size_t (int (align_len (pos iter1) alignment)) \<rparr>
     in
     if fixed_size then
       ebind (gvariant_get_fixed_size sig1) (\<lambda>item_size.
         Inr (next_item_done iter2 item_size))
     else if container_type iter2 \<noteq> DBUS_CONTAINER_TYPE_ARRAY \<and> last_member then
       Inr (next_item_done iter2 (size_t (int (len iter2) - int (pos iter2))))
     else
       (case offsets iter2 of
          None \<Rightarrow> Inl NullPointer
        | Some off \<Rightarrow>
            if off \<ge> data iter2 + int (len iter2) then Inr (None, iter2)
            else
              let offset_len = offset_length (len iter2) 0 in
              ebind (read_word_le h off offset_len) (\<lambda>w.
                let item_size = size_t (int w - int (pos iter2));
                    iter3 = iter2 \<lparr> offsets := Some
                      (if container_type iter2 = DBUS_CONTAINER_TYPE_ARRAY
                       then off + int offset_len else off - int offset_len) \<rparr>
                in Inr (next_item_done iter3 item_size))))"

text \<open>
  The copy of the rest of the signature window into the local \<^verbatim>\<open>char sig[256]\<close> and its
  terminator.
\<close>

definition sig_copy :: "l_dbus_message_iter \<Rightarrow> char list" where
  "sig_copy iter =
    take (sig_len iter - sig_pos iter) (drop (sig_pos iter) (sig_start iter)) @ [NUL]"

definition next_item ::
  "heap \<Rightarrow> l_dbus_message_iter \<Rightarrow> error + ((int \<times> nat) option \<times> l_dbus_message_iter)"
where
  "next_item h iter =
    (if sig_len iter < sig_pos iter then Inl BadLength
     else if sig_len iter - sig_pos iter > 255 then Inl BufferOverflow
     else if sig_pos iter < sig_len iter \<and> length (sig_start iter) < sig_len iter
       then Inl OutOfBounds
     else
       let sig = sig_copy iter in
       ebind (validate_next_type sig) (\<lambda>r.
         case r of
           None \<Rightarrow> Inr (None, iter)
         | Some (p, alignment) \<Rightarrow>
             let sig_len' = length sig - length p in
             (case p of
                [] \<Rightarrow> Inl OutOfBounds
              | c # _ \<Rightarrow>
                  let last_member = (c = NUL);
                      sig1 = take sig_len' sig @ [NUL] in
                  ebind (gvariant_is_fixed_size sig1) (\<lambda>fixed_size.
                    next_item_extent h iter sig_len' alignment fixed_size last_member sig1))))"

subsection \<open>The extraction operations\<close>

text \<open>\<^verbatim>\<open>iter->sig_start[iter->sig_pos]\<close>.\<close>

definition sig_at :: "l_dbus_message_iter \<Rightarrow> error + char" where
  "sig_at iter =
    (if sig_pos iter < length (sig_start iter) then Inr (sig_start iter ! sig_pos iter)
     else Inl OutOfBounds)"

text \<open>
  What \<^verbatim>\<open>_gvariant_iter_next_entry_basic\<close> stores through \<open>out\<close>: a pointer into the
  buffer for the string-like types, the decoded number otherwise.
\<close>

datatype basic_value =
  String int
| Boolean bool
| Byte nat
| Int16 int
| Uint16 nat
| Int32 int
| Uint32 nat
| Int64 int
| Uint64 nat

text \<open>
  The result is the return value, the reader after the call and what was written to
  \<open>out\<close> (\<open>None\<close> when nothing was written).
\<close>

definition gvariant_iter_next_entry_basic ::
  "heap \<Rightarrow> l_dbus_message_iter \<Rightarrow> char
    \<Rightarrow> error + (bool \<times> l_dbus_message_iter \<times> basic_value option)"
where
  "gvariant_iter_next_entry_basic h iter t =
    (if pos iter \<ge> len iter then Inr (False, iter, None)
     else ebind (sig_at iter) (\<lambda>c.
       if c \<noteq> t then Inr (False, iter, None)
       else ebind (next_item h iter) (\<lambda>(r, iter1).
         case r of
           None \<Rightarrow> Inr (False, iter1, None)
         | Some (start, item_size) \<Rightarrow>
             if t = CHR ''o'' \<or> t = CHR ''s'' \<or> t = CHR ''g'' then
               ebind (memchr h start item_size) (\<lambda>e.
                 case e of
                   None \<Rightarrow> Inr (False, iter1, None)
                 | Some _ \<Rightarrow> Inr (True, iter1, Some (String start)))
             else if t = CHR ''b'' then
               ebind (get_u8 h start) (\<lambda>v. Inr (True, iter1, Some (Boolean (v \<noteq> 0))))
             else if t = CHR ''y'' then
               ebind (get_u8 h start) (\<lambda>v. Inr (True, iter1, Some (Byte v)))
             else if t = CHR ''n'' then
               ebind (get_s16 h start) (\<lambda>v. Inr (True, iter1, Some (Int16 v)))
             else if t = CHR ''q'' then
               ebind (get_u16 h start) (\<lambda>v. Inr (True, iter1, Some (Uint16 v)))
             else if t = CHR ''i'' then
               ebind (get_s32 h start) (\<lambda>v. Inr (True, iter1, Some (Int32 v)))
             else if t = CHR ''h'' \<or> t = CHR ''u'' then
               ebind (get_u32 h start) (\<lambda>v. Inr (True, iter1, Some (Uint32 v)))
             else if t = CHR ''x'' then
               ebind (get_s64 h start) (\<lambda>v. Inr (True, iter1, Some (Int64 v)))
             else if t = CHR ''t'' then
               ebind (get_u64 h start) (\<lambda>v. Inr (True, iter1, Some (Uint64 v)))
             else if t = CHR ''d'' then
               ebind (get_u64 h start) (\<lambda>v. Inr (True, iter1, Some (Uint64 v)))
             else Inr (True, iter1, None))))"

text \<open>
  The three descents. \<open>child0\<close> is the content of the second argument before the call;
  the result is the return value, the reader after the call and the second argument
  after it. The signature window of the child starts at \<open>sig_start + sig_pos + 1\<close>,
  with \<open>sig_pos\<close> read before \<^verbatim>\<open>next_item\<close>; \<open>sig_end\<close> is passed as its distance
  from there.
\<close>

definition gvariant_iter_enter_struct ::
  "heap \<Rightarrow> l_dbus_message_iter \<Rightarrow> l_dbus_message_iter
    \<Rightarrow> error + (bool \<times> l_dbus_message_iter \<times> l_dbus_message_iter)"
where
  "gvariant_iter_enter_struct h iter child0 =
    ebind (sig_at iter) (\<lambda>c.
      let is_dict = (c = CHR ''{'');
          is_struct = (c = CHR ''('');
          sig_start' = drop (sig_pos iter + 1) (sig_start iter) in
      if \<not> is_dict \<and> \<not> is_struct then Inr (False, iter, child0)
      else ebind (next_item h iter) (\<lambda>(r, iter1).
        case r of
          None \<Rightarrow> Inr (False, iter1, child0)
        | Some (start, item_size) \<Rightarrow>
            let sig_end =
                  (if container_type iter1 = DBUS_CONTAINER_TYPE_ARRAY
                   then int (sig_len iter1) - 1 - (int (sig_pos iter) + 1)
                   else int (sig_pos iter1) - 1 - (int (sig_pos iter) + 1));
                type' = (if is_dict then DBUS_CONTAINER_TYPE_DICT_ENTRY
                         else DBUS_CONTAINER_TYPE_STRUCT) in
            ebind (gvariant_iter_init_internal h child0 (message iter1) type' sig_start'
                     (Some sig_end) start item_size)
              (\<lambda>(ok, child). Inr (ok, iter1, child))))"

definition gvariant_iter_enter_variant ::
  "heap \<Rightarrow> l_dbus_message_iter \<Rightarrow> l_dbus_message_iter
    \<Rightarrow> error + (bool \<times> l_dbus_message_iter \<times> l_dbus_message_iter)"
where
  "gvariant_iter_enter_variant h iter child0 =
    ebind (sig_at iter) (\<lambda>c.
      if c \<noteq> CHR ''v'' then Inr (False, iter, child0)
      else ebind (next_item h iter) (\<lambda>(r, iter1).
        case r of
          None \<Rightarrow> Inr (False, iter1, child0)
        | Some (start, item_size) \<Rightarrow>
            let end' = start + int item_size in
            ebind (memrchr h start item_size) (\<lambda>m.
              case m of
                None \<Rightarrow> Inr (False, iter1, child0)
              | Some nul \<Rightarrow>
                  if end' - nul - 1 > 255 then Inr (False, iter1, child0)
                  else if end' - nul - 1 \<ge> 255 then Inl BufferOverflow
                  else
                    ebind (read_bytes h (nul + 1) (nat (end' - nul - 1))) (\<lambda>bs.
                      let signature = bs @ [NUL] in
                      ebind (gvariant_valid_signature signature) (\<lambda>valid.
                        if \<not> valid then Inr (False, iter1, child0)
                        else ebind (gvariant_num_children signature) (\<lambda>n.
                          if n \<noteq> 1 then Inr (False, iter1, child0)
                          else
                            ebind (gvariant_iter_init_internal h child0 (message iter1)
                                     DBUS_CONTAINER_TYPE_VARIANT (drop (nat (nul + 1)) h)
                                     (Some (end' - nul - 1)) start (nat (nul - start)))
                              (\<lambda>(ok, child). Inr (ok, iter1, child))))))))"

definition gvariant_iter_enter_array ::
  "heap \<Rightarrow> l_dbus_message_iter \<Rightarrow> l_dbus_message_iter
    \<Rightarrow> error + (bool \<times> l_dbus_message_iter \<times> l_dbus_message_iter)"
where
  "gvariant_iter_enter_array h iter child0 =
    ebind (sig_at iter) (\<lambda>c.
      if c \<noteq> CHR ''a'' then Inr (False, iter, child0)
      else
        let sig_start' = drop (sig_pos iter + 1) (sig_start iter) in
        ebind (next_item h iter) (\<lambda>(r, iter1).
          case r of
            None \<Rightarrow> Inr (False, iter1, child0)
          | Some (start, item_size) \<Rightarrow>
              let sig_end =
                    (if container_type iter1 = DBUS_CONTAINER_TYPE_ARRAY
                     then int (sig_len iter1) - (int (sig_pos iter) + 1)
                     else int (sig_pos iter1) - (int (sig_pos iter) + 1)) in
              ebind (gvariant_iter_init_internal h child0 (message iter1)
                       DBUS_CONTAINER_TYPE_ARRAY sig_start' (Some sig_end) start item_size)
                (\<lambda>(ok, child). Inr (ok, iter1, child))))"

text \<open>The C string a pointer into the buffer points at, when there is one.\<close>

definition c_string_at :: "heap \<Rightarrow> int \<Rightarrow> string option" where
  "c_string_at h p =
    (if 0 \<le> p \<and> NUL \<in> set (drop (nat p) h)
     then Some (takeWhile (\<lambda>c. c \<noteq> NUL) (drop (nat p) h)) else None)"

section \<open>Predicates, sample frames and sample readers\<close>

text \<open>
  The fields of a reader that describe its frame and its signature window, as opposed
  to the cursors \<open>sig_pos\<close>, \<open>pos\<close> and \<open>offsets\<close>.
\<close>

definition same_frame :: "l_dbus_message_iter \<Rightarrow> l_dbus_message_iter \<Rightarrow> bool" where
  "same_frame it it' \<longleftrightarrow>
     message it' = message it \<and> sig_start it' = sig_start it \<and> sig_len it' = sig_len it \<and>
     data it' = data it \<and> len it' = len it \<and> container_type it' = container_type it"

text \<open>
  The terminal states of the spec: \<open>pos \<ge> len\<close>, or the signature exhausted in a reader
  that is not an array reader.
\<close>

definition terminal :: "l_dbus_message_iter \<Rightarrow> bool" where
  "terminal it \<longleftrightarrow>
     len it \<le> pos it \<or>
     (sig_pos it = sig_len it \<and> container_type it \<noteq> DBUS_CONTAINER_TYPE_ARRAY)"

text \<open>A call returned true; a call returned false. Neither holds of an \<open>error\<close>.\<close>

definition returns_true :: "error + (bool \<times> 'a) \<Rightarrow> bool" where
  "returns_true r = (case r of Inl e \<Rightarrow> False | Inr (b, x) \<Rightarrow> b)"

definition returns_false :: "error + (bool \<times> 'a) \<Rightarrow> bool" where
  "returns_false r = (case r of Inl e \<Rightarrow> False | Inr (b, x) \<Rightarrow> \<not> b)"

text \<open>The reader of the signature \<open>s\<close> over the two bytes \<open>hi\<close>, which hold no terminator.\<close>

definition reader_s :: l_dbus_message_iter where
  "reader_s = \<lparr> message = 0, sig_start = ''s'' @ [NUL], sig_len = 1, sig_pos = 0,
     data = 0, len = 2, pos = 0, container_type = DBUS_CONTAINER_TYPE_STRUCT,
     offsets = None \<rparr>"

text \<open>
  The frame of scenario S3: \<open>hi\<close> and its terminator at offsets 0 to 2, one pad byte,
  the little-endian 32-bit integer 7 at offsets 4 to 7, and the offset word 3 at offset 8.
\<close>

definition frame_si :: "char \<Rightarrow> heap" where
  "frame_si pad = [CHR 0x68, CHR 0x69, NUL, pad, CHR 0x07, NUL, NUL, NUL, CHR 0x03]"

text \<open>
  The frame of scenario S6: a variant that holds the 32-bit integer 42, the separator
  and the signature \<open>i\<close>.
\<close>

definition frame_v_i32 :: heap where
  "frame_v_i32 = [CHR 0x2A, NUL, NUL, NUL, NUL, CHR ''i'']"

text \<open>
  The type of 254 nested arrays of bytes, and the frame of a variant that holds the
  empty array of that type: no data, the separator, the 255 bytes of the signature.
\<close>

definition sig255 :: string where
  "sig255 = replicate 254 (CHR ''a'') @ ''y''"

definition frame_v255 :: heap where
  "frame_v255 = NUL # sig255"

text \<open>
  The reader of the signature \<open>v\<close> over the frame of scenario S6, and the reader of the
  variant that \<^verbatim>\<open>enter_variant\<close> makes from it: its signature window is the last byte
  of the buffer.
\<close>

definition reader_v :: l_dbus_message_iter where
  "reader_v = \<lparr> message = 0, sig_start = ''v'' @ [NUL], sig_len = 1, sig_pos = 0,
     data = 0, len = 6, pos = 0, container_type = DBUS_CONTAINER_TYPE_STRUCT,
     offsets = None \<rparr>"

definition variant_reader_i :: l_dbus_message_iter where
  "variant_reader_i = \<lparr> message = 0, sig_start = ''i'', sig_len = 1, sig_pos = 0,
     data = 0, len = 4, pos = 0, container_type = DBUS_CONTAINER_TYPE_VARIANT,
     offsets = None \<rparr>"

text \<open>
  An array reader of structs \<open>(n)\<close> over two bytes whose \<open>pos\<close> is the largest
  \<^verbatim>\<open>size_t\<close>.
\<close>

definition reader_wrapped :: l_dbus_message_iter where
  "reader_wrapped = \<lparr> message = 0, sig_start = ''(n)'' @ [NUL], sig_len = 3, sig_pos = 0,
     data = 0, len = 2, pos = 2 ^ 64 - 1, container_type = DBUS_CONTAINER_TYPE_ARRAY,
     offsets = None \<rparr>"

text \<open>The reader of the signature \<open>i\<close> over four bytes, after its only child was read.\<close>

definition reader_done :: l_dbus_message_iter where
  "reader_done = \<lparr> message = 0, sig_start = ''i'' @ [NUL], sig_len = 1, sig_pos = 1,
     data = 0, len = 4, pos = 4, container_type = DBUS_CONTAINER_TYPE_STRUCT,
     offsets = None \<rparr>"

text \<open>The frame of scenario S4 (three 32-bit integers) and the array reader over it.\<close>

definition frame_ai :: heap where
  "frame_ai = [CHR 0x01, NUL, NUL, NUL, CHR 0x02, NUL, NUL, NUL, CHR 0x03, NUL, NUL, NUL]"

definition array_reader_ai :: l_dbus_message_iter where
  "array_reader_ai = \<lparr> message = 0, sig_start = ''i'' @ [NUL], sig_len = 1, sig_pos = 0,
     data = 0, len = 12, pos = 0, container_type = DBUS_CONTAINER_TYPE_ARRAY,
     offsets = None \<rparr>"

text \<open>
  A struct frame for the signature \<open>asi\<close>: an empty array of strings at offset 0, the
  integer 0 at offsets 0 to 3, and the offset word 0 for the end of the array.
\<close>

definition frame_asi :: heap where
  "frame_asi = [NUL, NUL, NUL, NUL, NUL]"

text \<open>
  The reader of the signature \<open>g\<close> over three bytes; the theorems read it over bytes
  that are neither UTF-8 nor a signature nor an object path.
\<close>

definition reader_g :: l_dbus_message_iter where
  "reader_g = \<lparr> message = 0, sig_start = ''g'' @ [NUL], sig_len = 1, sig_pos = 0,
     data = 0, len = 3, pos = 0, container_type = DBUS_CONTAINER_TYPE_STRUCT,
     offsets = None \<rparr>"

section \<open>Evaluation\<close>

lemmas sig_eval =
  validate_next_type.simps validate_members.simps strchr_def simple_types_def
  variable_types_def fixed_types_def gvariant_valid_signature.simps
  gvariant_num_children_def num_children_loop.simps gvariant_get_alignment_def
  get_alignment_loop.simps gvariant_get_fixed_size_def get_fixed_size_loop.simps
  align_len_def

lemmas reader_eval =
  gvariant_iter_init_def gvariant_iter_init_internal_def copy_subsig_def strlen_def
  offset_length_def size_t_def read_bytes_def read_word_le_def next_item_def
  next_item_extent_def sig_copy_def
  next_item_done_def sig_at_def memchr_def memrchr_def get_u8_def get_u16_def get_s16_def
  get_u32_def get_s32_def get_u64_def get_s64_def signed_of_def
  gvariant_iter_next_entry_basic_def gvariant_iter_enter_struct_def
  gvariant_iter_enter_variant_def gvariant_iter_enter_array_def Let_def
  scan_children.simps

section \<open>Properties of the validator and of next_item\<close>

text \<open>Every complete type has one of the four alignments.\<close>

lemma validate_alignment_both:
  "validate_next_type sig = Inr (Some (r, a)) \<Longrightarrow> a \<in> {1, 2, 4, 8}"
  "validate_members sig m = Inr (Some (r, a)) \<Longrightarrow> m \<in> {1, 2, 4, 8} \<Longrightarrow> a \<in> {1, 2, 4, 8}"
proof (induction sig and sig m arbitrary: r a and r a rule: validate_next_type_validate_members.induct)
  case 1
  then show ?case by (simp add: validate_next_type.simps)
next
  case (2 s sig)
  show ?case
  proof (cases "s = NUL")
    case True
    with 2(4) show ?thesis by (simp add: validate_next_type.simps)
  next
    case nz: False
    show ?thesis
    proof (cases "strchr simple_types s \<or> s = CHR ''v''")
      case True
      with nz 2(4) have "a = get_basic_alignment s"
        by (auto simp: validate_next_type.simps)
      moreover from True nz have "get_basic_alignment s \<in> {1, 2, 4, 8}"
        by (auto simp: strchr_def simple_types_def)
      ultimately show ?thesis by simp
    next
      case b: False
      show ?thesis
      proof (cases "s = CHR ''a''")
        case True
        with nz b 2(4) have "validate_next_type sig = Inr (Some (r, a))"
          by (simp add: validate_next_type.simps)
        with 2(1) nz b True show ?thesis by blast
      next
        case na: False
        show ?thesis
        proof (cases "s = CHR ''{''")
          case True
          with nz b na 2(4) obtain k sig1 sig2 al where
            sg: "sig = k # sig1" and k: "strchr simple_types k"
            and v: "validate_next_type sig1 = Inr (Some (sig2, al))"
            and a: "a = (if get_basic_alignment k > al then get_basic_alignment k else al)"
            by (auto simp: validate_next_type.simps ebind_def
                split: list.splits if_splits sum.splits option.splits)
          from 2(2) nz b na True sg k v have "al \<in> {1, 2, 4, 8}" by blast
          moreover from k have "get_basic_alignment k \<in> {0, 1, 2, 4, 8}"
            by (auto simp: strchr_def simple_types_def)
          ultimately show ?thesis using a by auto
        next
          case nb: False
          show ?thesis
          proof (cases "s = CHR ''(''")
            case True
            with nz b na nb 2(4) have "validate_members sig 1 = Inr (Some (r, a))"
              by (simp add: validate_next_type.simps)
            with 2(3) nz b na nb True show ?thesis by blast
          next
            case False
            with nz b na nb 2(4) show ?thesis
              by (simp add: validate_next_type.simps)
          qed
        qed
      qed
    qed
  qed
next
  case (3 m)
  then show ?case by (simp add: validate_members.simps)
next
  case (4 c sig m)
  show ?case
  proof (cases "c = CHR '')''")
    case True
    with 4(3,4) show ?thesis by (simp add: validate_members.simps)
  next
    case False
    with 4(3) obtain sig1 al where
      v: "validate_next_type (c # sig) = Inr (Some (sig1, al))"
      and m: "validate_members sig1 (if al > m then al else m) = Inr (Some (r, a))"
      by (auto simp: validate_members.simps ebind_def split: sum.splits option.splits)
    from 4(1) False v have "al \<in> {1, 2, 4, 8}" by blast
    with 4(4) have "(if al > m then al else m) \<in> {1, 2, 4, 8}" by auto
    with 4(2) False v m show ?thesis by blast
  qed
qed

lemma align_len_bounds:
  assumes "a \<in> {1, 2, 4, 8}"
  shows "n \<le> align_len n a" and "align_len n a < n + a"
proof -
  from assms have a: "0 < a" by auto
  have "(n + a - 1) div a * a \<le> n + a - 1"
    by (rule div_times_less_eq_dividend)
  with a show "align_len n a < n + a"
    unfolding align_len_def by linarith
  from a have "n + a - 1 < a + (n + a - 1) div a * a"
    by (rule dividend_less_div_times)
  with a show "n \<le> align_len n a"
    unfolding align_len_def by linarith
qed

text \<open>
  What \<^verbatim>\<open>next_item\<close> can change: only \<open>sig_pos\<close>, \<open>pos\<close> and \<open>offsets\<close>, and \<open>sig_pos\<close> only
  outside arrays. A returned child starts at the aligned position, inside the frame.
\<close>

lemma next_item_extent_cases:
  assumes "next_item_extent h it k al fx lm s1 = Inr (r, it')"
  shows "it' = it \<lparr> sig_pos := sig_pos it', pos := pos it', offsets := offsets it' \<rparr>"
    and "container_type it = DBUS_CONTAINER_TYPE_ARRAY \<Longrightarrow> sig_pos it' = sig_pos it"
    and "r = Some (start, n) \<Longrightarrow>
            start = data it + int (size_t (int (align_len (pos it) al))) \<and>
            start < data it + int (len it)"
  using assms unfolding next_item_extent_def Let_def
  by (auto simp: ebind_def next_item_done_def Let_def
      split: if_splits sum.splits option.splits)

lemma next_item_parse:
  assumes "next_item h it = Inr (r, it')"
  shows "(r = None \<and> it' = it) \<or>
    (\<exists>p al k fx lm s1. validate_next_type (sig_copy it) = Inr (Some (p, al)) \<and>
       next_item_extent h it k al fx lm s1 = Inr (r, it'))"
  using assms unfolding next_item_def Let_def
  by (auto simp: ebind_def split: if_splits sum.splits option.splits list.splits)

lemma next_item_cases:
  assumes "next_item h it = Inr (r, it')"
  shows "it' = it \<lparr> sig_pos := sig_pos it', pos := pos it', offsets := offsets it' \<rparr>"
    and "container_type it = DBUS_CONTAINER_TYPE_ARRAY \<Longrightarrow> sig_pos it' = sig_pos it"
    and "r = Some (start, n) \<Longrightarrow>
          \<exists>p al. validate_next_type (sig_copy it) = Inr (Some (p, al)) \<and>
            start = data it + int (size_t (int (align_len (pos it) al))) \<and>
            start < data it + int (len it)"
proof -
  from next_item_parse [OF assms] show
    "it' = it \<lparr> sig_pos := sig_pos it', pos := pos it', offsets := offsets it' \<rparr>"
    by (auto dest: next_item_extent_cases(1))
  from next_item_parse [OF assms] show
    "container_type it = DBUS_CONTAINER_TYPE_ARRAY \<Longrightarrow> sig_pos it' = sig_pos it"
    by (auto dest: next_item_extent_cases(2))
  from next_item_parse [OF assms] show "r = Some (start, n) \<Longrightarrow>
          \<exists>p al. validate_next_type (sig_copy it) = Inr (Some (p, al)) \<and>
            start = data it + int (size_t (int (align_len (pos it) al))) \<and>
            start < data it + int (len it)"
    by (auto dest: next_item_extent_cases(3))
qed

text \<open>
  Every operation either returns before \<^verbatim>\<open>next_item\<close> with the reader untouched, or
  leaves the reader as \<^verbatim>\<open>next_item\<close> left it; it returns true only when \<^verbatim>\<open>next_item\<close>
  returned a child.
\<close>

lemma next_basic_steps:
  assumes "gvariant_iter_next_entry_basic h it t = Inr (b, it', v)"
  shows "(it' = it \<and> \<not> b) \<or> (\<exists>r. next_item h it = Inr (r, it') \<and> (b \<longrightarrow> r \<noteq> None))"
  using assms unfolding gvariant_iter_next_entry_basic_def
  by (auto simp: ebind_def split: if_splits sum.splits option.splits prod.splits)

lemma enter_struct_steps:
  assumes "gvariant_iter_enter_struct h it child0 = Inr (b, it', c)"
  shows "(it' = it \<and> \<not> b) \<or> (\<exists>r. next_item h it = Inr (r, it') \<and> (b \<longrightarrow> r \<noteq> None))"
  using assms unfolding gvariant_iter_enter_struct_def Let_def
  by (auto simp: ebind_def split: if_splits sum.splits option.splits prod.splits)

lemma enter_array_steps:
  assumes "gvariant_iter_enter_array h it child0 = Inr (b, it', c)"
  shows "(it' = it \<and> \<not> b) \<or> (\<exists>r. next_item h it = Inr (r, it') \<and> (b \<longrightarrow> r \<noteq> None))"
  using assms unfolding gvariant_iter_enter_array_def Let_def
  by (auto simp: ebind_def split: if_splits sum.splits option.splits prod.splits)

lemma enter_variant_steps:
  assumes "gvariant_iter_enter_variant h it child0 = Inr (b, it', c)"
  shows "(it' = it \<and> \<not> b) \<or> (\<exists>r. next_item h it = Inr (r, it') \<and> (b \<longrightarrow> r \<noteq> None))"
  using assms unfolding gvariant_iter_enter_variant_def Let_def
  by (auto simp: ebind_def split: if_splits sum.splits option.splits prod.splits)

section \<open>What holds for valid signatures\<close>

lemma valid_signature_step:
  assumes "gvariant_valid_signature s = Inr True"
  obtains s1 a c rest where "validate_next_type s = Inr (Some (s1, a))" and "s1 = c # rest"
    and "c = NUL \<or> (c \<noteq> NUL \<and> gvariant_valid_signature s1 = Inr True)"
  using assms
  by (subst (asm) gvariant_valid_signature.simps)
     (auto simp: ebind_def split: sum.splits option.splits list.splits if_splits)

lemma validate_nonempty:
  assumes "validate_next_type s = Inr (Some (s1, a))"
  obtains c0 s0 where "s = c0 # s0" and "c0 \<noteq> NUL"
  using assms by (cases s) (auto simp: validate_next_type.simps split: if_splits)

lemma num_children_loop_valid:
  "gvariant_valid_signature s = Inr True \<Longrightarrow> \<exists>k\<ge>1. num_children_loop s n = Inr (n + k)"
proof (induction s arbitrary: n rule: gvariant_valid_signature.induct)
  case (1 s)
  from valid_signature_step [OF 1(2)] obtain s1 a c rest where
    v: "validate_next_type s = Inr (Some (s1, a))" and s1: "s1 = c # rest"
    and c: "c = NUL \<or> (c \<noteq> NUL \<and> gvariant_valid_signature s1 = Inr True)"
    by blast
  show ?case
  proof (cases "c = NUL")
    case True
    with v s1 have "num_children_loop s n = Inr (n + 1)"
      by (subst num_children_loop.simps) simp
    then show ?thesis by auto
  next
    case False
    with c have "gvariant_valid_signature s1 = Inr True" by simp
    from 1(1) [OF v refl refl s1 False this, of "n + 1"]
    obtain k where "k \<ge> 1" and "num_children_loop s1 (n + 1) = Inr (n + 1 + k)" by blast
    with v s1 False have "num_children_loop s n = Inr (n + (1 + k))"
      by (subst num_children_loop.simps) (simp add: add.assoc)
    with \<open>k \<ge> 1\<close> show ?thesis
      by (intro exI [of _ "1 + k"]) simp
  qed
qed

lemma get_alignment_loop_step:
  assumes "validate_next_type s = Inr (Some (s1, a))"
  shows "get_alignment_loop s m =
    (if m \<noteq> 8 then get_alignment_loop s1 (if a > m then a else m) else Inr m)"
proof -
  from validate_nonempty [OF assms] obtain c0 s0 where "s = c0 # s0" and "c0 \<noteq> NUL" by blast
  with assms show ?thesis
    by (subst get_alignment_loop.simps) simp
qed

lemma get_alignment_loop_valid:
  "gvariant_valid_signature s = Inr True \<Longrightarrow> m \<in> {1, 2, 4, 8} \<Longrightarrow>
     \<exists>M\<in>{1, 2, 4, 8}. m \<le> M \<and> get_alignment_loop s m = Inr M"
proof (induction s arbitrary: m rule: gvariant_valid_signature.induct)
  case (1 s)
  from valid_signature_step [OF 1(2)] obtain s1 a c rest where
    v: "validate_next_type s = Inr (Some (s1, a))" and s1: "s1 = c # rest"
    and c: "c = NUL \<or> (c \<noteq> NUL \<and> gvariant_valid_signature s1 = Inr True)"
    by blast
  from validate_alignment_both(1) [OF v] have a: "a \<in> {1, 2, 4, 8}" .
  define m' where "m' = (if a > m then a else m)"
  from a 1(3) have m': "m' \<in> {1, 2, 4, 8}" and mm: "m \<le> m'"
    by (auto simp: m'_def)
  note step = get_alignment_loop_step [OF v, of m, folded m'_def]
  show ?case
  proof (cases "m = 8")
    case True
    with step show ?thesis by simp
  next
    case m8: False
    show ?thesis
    proof (cases "c = NUL")
      case True
      with s1 have "get_alignment_loop s1 m' = Inr m'"
        by (subst get_alignment_loop.simps) simp
      with step m8 m' mm show ?thesis by auto
    next
      case False
      with c have "gvariant_valid_signature s1 = Inr True" by simp
      from 1(1) [OF v refl refl s1 False this m']
      obtain M where "M \<in> {1, 2, 4, 8}" "m' \<le> M" "get_alignment_loop s1 m' = Inr M"
        by blast
      with step m8 mm show ?thesis by auto
    qed
  qed
qed

text \<open>
  The second half of claim C4 holds on the code: whenever \<^verbatim>\<open>_gvariant_valid_signature\<close>
  returns true, \<^verbatim>\<open>_gvariant_num_children\<close> returns at least 1 and
  \<^verbatim>\<open>_gvariant_get_alignment\<close> one of 1, 2, 4, 8.
\<close>

lemma valid_signature_children_alignment:
  assumes "gvariant_valid_signature s = Inr True"
  shows "\<exists>n\<ge>1. gvariant_num_children s = Inr n"
    and "\<exists>a\<in>{1, 2, 4, 8}. gvariant_get_alignment s = Inr a"
proof -
  from num_children_loop_valid [OF assms, of 0]
  show "\<exists>n\<ge>1. gvariant_num_children s = Inr n"
    by (simp add: gvariant_num_children_def)
  from get_alignment_loop_valid [OF assms, of 1]
  show "\<exists>a\<in>{1, 2, 4, 8}. gvariant_get_alignment s = Inr a"
    by (auto simp: gvariant_get_alignment_def)
qed

lemma align_len_dvd: "a dvd align_len n a"
  by (simp add: align_len_def)

lemma validate_fixed_char:
  assumes "strchr fixed_types c" and "c \<noteq> NUL"
  shows "validate_next_type (c # s0) = Inr (Some (s0, get_basic_alignment c))"
  using assms by (auto simp: validate_next_type.simps strchr_def fixed_types_def simple_types_def)

lemma validate_closing:
  assumes "c = CHR ''}'' \<or> c = CHR '')''"
  shows "validate_next_type (c # s0) = Inr None"
  using assms by (auto simp: validate_next_type.simps strchr_def simple_types_def)

lemma get_fixed_size_loop_variable:
  assumes "c0 \<noteq> NUL" and "strchr variable_types c0"
  shows "get_fixed_size_loop (c0 # s0) sz m = Inr 0"
  using assms by (subst get_fixed_size_loop.simps) simp

lemma get_fixed_size_loop_fixed:
  assumes "c0 \<noteq> NUL" and "\<not> strchr variable_types c0" and "strchr fixed_types c0"
  shows "get_fixed_size_loop (c0 # s0) sz m =
    get_fixed_size_loop s0 (align_len sz (get_basic_alignment c0) + get_basic_fixed_size c0)
      (if get_basic_alignment c0 > m then get_basic_alignment c0 else m)"
  using assms by (subst get_fixed_size_loop.simps) simp

lemma get_fixed_size_loop_container:
  assumes "c0 \<noteq> NUL" and "\<not> strchr variable_types c0" and "\<not> strchr fixed_types c0"
    and "c0 \<noteq> CHR ''}''" and "c0 \<noteq> CHR '')''"
    and "validate_next_type (c0 # s0) = Inr (Some (p, a))"
  shows "get_fixed_size_loop (c0 # s0) sz m =
    ebind
      (if c0 = CHR ''('' then
         (case s0 of
            [] \<Rightarrow> Inl OutOfBounds
          | c1 # _ \<Rightarrow> if c1 = CHR '')'' then Inr 1 else get_fixed_size_loop s0 0 1)
       else get_fixed_size_loop s0 0 1)
      (\<lambda>r. if r = 0 then Inr 0
           else get_fixed_size_loop p (align_len sz a + r) (if a > m then a else m))"
  using assms by (subst get_fixed_size_loop.simps) simp

text \<open>
  One round of the loop of \<^verbatim>\<open>_gvariant_get_fixed_size\<close> over a complete type: the result
  is 0, or the loop goes on behind the type with the alignment folded into the maximum.
\<close>

lemma get_fixed_size_loop_step:
  assumes "validate_next_type s = Inr (Some (s1, a))"
    and "get_fixed_size_loop s sz m = Inr r"
  shows "r = 0 \<or> (\<exists>sz'. get_fixed_size_loop s1 sz' (if a > m then a else m) = Inr r)"
proof -
  from validate_nonempty [OF assms(1)] obtain c0 s0 where s: "s = c0 # s0" and c0: "c0 \<noteq> NUL"
    by blast
  show ?thesis
  proof (cases "strchr variable_types c0")
    case True
    from get_fixed_size_loop_variable [OF c0 True, of s0 sz m] assms(2) s
    show ?thesis by simp
  next
    case nv: False
    show ?thesis
    proof (cases "strchr fixed_types c0")
      case True
      have "Inr (Some (s0, get_basic_alignment c0)) = validate_next_type (c0 # s0)"
        using validate_fixed_char [OF True c0, of s0] by (rule sym)
      also have "\<dots> = Inr (Some (s1, a))"
        using assms(1) unfolding s .
      finally have e0: "s0 = s1 \<and> get_basic_alignment c0 = a"
        by (simp only: sum.inject option.inject prod.inject)
      from e0 have e1: "s1 = s0" by (rule conjunct1 [THEN sym])
      from e0 have e2: "a = get_basic_alignment c0" by (rule conjunct2 [THEN sym])
      have "get_fixed_size_loop s0
          (align_len sz (get_basic_alignment c0) + get_basic_fixed_size c0)
          (if get_basic_alignment c0 > m then get_basic_alignment c0 else m)
          = get_fixed_size_loop (c0 # s0) sz m"
        using get_fixed_size_loop_fixed [OF c0 nv True, of s0 sz m] by (rule sym)
      also have "\<dots> = Inr r"
        using assms(2) unfolding s .
      finally show ?thesis
        unfolding e1 e2 by (intro disjI2 exI)
    next
      case nf: False
      from validate_closing [of c0 s0] assms(1) s
      have nc: "c0 \<noteq> CHR ''}''" "c0 \<noteq> CHR '')''" by auto
      define N where "N = (if c0 = CHR ''('' then
         (case s0 of
            [] \<Rightarrow> Inl OutOfBounds
          | c1 # _ \<Rightarrow> if c1 = CHR '')'' then Inr 1 else get_fixed_size_loop s0 0 1)
       else get_fixed_size_loop s0 0 1)"
      from get_fixed_size_loop_container [OF c0 nv nf nc, of s0 s1 a sz m] assms s
      have eq: "ebind N (\<lambda>r. if r = 0 then Inr 0
           else get_fixed_size_loop s1 (align_len sz a + r) (if a > m then a else m)) = Inr r"
        by (simp add: N_def)
      show ?thesis
      proof (cases N)
        case (Inl e)
        with eq show ?thesis by simp
      next
        case (Inr r')
        with eq show ?thesis by (cases "r' = 0") auto
      qed
    qed
  qed
qed

lemma get_fixed_size_loop_valid:
  "gvariant_valid_signature s = Inr True \<Longrightarrow> m \<in> {1, 2, 4, 8} \<Longrightarrow>
   get_fixed_size_loop s sz m = Inr r \<Longrightarrow>
     \<exists>M\<in>{1, 2, 4, 8}. m \<le> M \<and> get_alignment_loop s m = Inr M \<and> M dvd r"
proof (induction s arbitrary: m sz rule: gvariant_valid_signature.induct)
  case (1 s)
  from valid_signature_step [OF 1(2)] obtain s1 a c rest where
    v: "validate_next_type s = Inr (Some (s1, a))" and s1: "s1 = c # rest"
    and c: "c = NUL \<or> (c \<noteq> NUL \<and> gvariant_valid_signature s1 = Inr True)"
    by blast
  from validate_alignment_both(1) [OF v] have a: "a \<in> {1, 2, 4, 8}" .
  define m' where "m' = (if a > m then a else m)"
  from a 1(3) have m': "m' \<in> {1, 2, 4, 8}" and mm: "m \<le> m'"
    by (auto simp: m'_def)
  from get_alignment_loop_valid [OF 1(2,3)] obtain A where
    A: "A \<in> {1, 2, 4, 8}" "m \<le> A" "get_alignment_loop s m = Inr A" by blast
  from get_fixed_size_loop_step [OF v 1(4), folded m'_def]
  consider "r = 0" | sz' where "get_fixed_size_loop s1 sz' m' = Inr r" by blast
  then show ?case
  proof cases
    case 1
    with A show ?thesis by auto
  next
    case 2
    note step = get_alignment_loop_step [OF v, of m, folded m'_def]
    show ?thesis
    proof (cases "c = NUL")
      case True
      with s1 2 have r: "r = align_len sz' m'"
        by (subst (asm) get_fixed_size_loop.simps) simp
      from True s1 have "get_alignment_loop s1 m' = Inr m'"
        by (subst get_alignment_loop.simps) simp
      with step have "get_alignment_loop s m = Inr m'"
        using mm m' by auto
      with r m' mm show ?thesis by (auto simp: align_len_dvd)
    next
      case False
      with c have "gvariant_valid_signature s1 = Inr True" by simp
      from "1.IH" [OF v refl refl s1 False this m' 2]
      obtain M where M: "M \<in> {1, 2, 4, 8}" "m' \<le> M" "get_alignment_loop s1 m' = Inr M"
        "M dvd r" by blast
      with step mm m' have "get_alignment_loop s m = Inr M" by auto
      with M mm show ?thesis by auto
    qed
  qed
qed

text \<open>
  The first half of claim C5 holds on the code: for a valid signature the fixed size
  the code computes is a multiple of the alignment it computes.
\<close>

lemma fixed_size_multiple_of_alignment:
  assumes "gvariant_valid_signature s = Inr True" and "gvariant_get_fixed_size s = Inr r"
  shows "\<exists>a\<in>{1, 2, 4, 8}. gvariant_get_alignment s = Inr a \<and> a dvd r"
  using get_fixed_size_loop_valid [OF assms(1), of 1 0 r] assms(2)
  by (auto simp: gvariant_get_fixed_size_def gvariant_get_alignment_def)

lemma fixed_size_multiple_of_alignment_example:
  "gvariant_valid_signature (''y(ix)'' @ [NUL]) = Inr True \<and>
   gvariant_get_fixed_size (''y(ix)'' @ [NUL]) = Inr 24 \<and>
   gvariant_get_alignment (''y(ix)'' @ [NUL]) = Inr 8"
  by (simp add: sig_eval)

section \<open>What a failed operation leaves behind\<close>

lemma step_same_frame:
  assumes "(it' = it \<and> \<not> b) \<or> (\<exists>r. next_item h it = Inr (r, it') \<and> (b \<longrightarrow> r \<noteq> None))"
  shows "same_frame it it'"
proof -
  from assms consider "it' = it" | r where "next_item h it = Inr (r, it')" by blast
  then show ?thesis
  proof cases
    case 1
    then show ?thesis by (simp add: same_frame_def)
  next
    case 2
    from next_item_cases(1) [OF 2] show ?thesis
      unfolding same_frame_def by (cases it, cases it') simp
  qed
qed

lemma next_item_no_type:
  assumes "sig_pos it \<le> sig_len it" and "sig_len it - sig_pos it \<le> 255"
    and "sig_len it \<le> length (sig_start it)"
    and "validate_next_type (sig_copy it) = Inr None"
  shows "next_item h it = Inr (None, it)"
  using assms by (simp add: next_item_def)

text \<open>
  Past its guards every operation calls \<^verbatim>\<open>next_item\<close>, and whatever it returns afterwards,
  the reader is the one \<^verbatim>\<open>next_item\<close> left.
\<close>

lemma next_basic_after_next_item:
  assumes "pos it < len it" and "sig_at it = Inr t" and "next_item h it = Inr (r, it1)"
    and "gvariant_iter_next_entry_basic h it t = Inr (b, it', v)"
  shows "it' = it1"
  using assms unfolding gvariant_iter_next_entry_basic_def
  by (auto simp: ebind_def split: if_splits sum.splits option.splits prod.splits)

lemma enter_struct_after_next_item:
  assumes "sig_at it = Inr c" and "c = CHR ''{'' \<or> c = CHR ''(''"
    and "next_item h it = Inr (r, it1)"
    and "gvariant_iter_enter_struct h it c0 = Inr (b, it', ch)"
  shows "it' = it1"
  using assms unfolding gvariant_iter_enter_struct_def Let_def
  by (auto simp: ebind_def split: if_splits sum.splits option.splits prod.splits)

lemma enter_array_after_next_item:
  assumes "sig_at it = Inr (CHR ''a'')" and "next_item h it = Inr (r, it1)"
    and "gvariant_iter_enter_array h it c0 = Inr (b, it', ch)"
  shows "it' = it1"
  using assms unfolding gvariant_iter_enter_array_def Let_def
  by (auto simp: ebind_def split: if_splits sum.splits option.splits prod.splits)

lemma enter_variant_after_next_item:
  assumes "sig_at it = Inr (CHR ''v'')" and "next_item h it = Inr (r, it1)"
    and "gvariant_iter_enter_variant h it c0 = Inr (b, it', ch)"
  shows "it' = it1"
  using assms unfolding gvariant_iter_enter_variant_def Let_def
  by (auto simp: ebind_def split: if_splits sum.splits option.splits prod.splits)

lemma reader_s_init:
  "gvariant_iter_init ''hi'' reader_s 0 (''s'' @ [NUL]) None 0 2 = Inr (True, reader_s)"
  by (simp add: reader_s_def sig_eval reader_eval)

lemma reader_s_next_item:
  "next_item ''hi'' reader_s = Inr (Some (0, 2), reader_s \<lparr> sig_pos := 1, pos := 2 \<rparr>)"
  by (simp add: reader_s_def sig_eval reader_eval)

lemma reader_s_next_basic:
  "gvariant_iter_next_entry_basic ''hi'' reader_s (CHR ''s'') =
     Inr (False, reader_s \<lparr> sig_pos := 1, pos := 2 \<rparr>, None)"
  by (simp add: reader_s_def sig_eval reader_eval)

text \<open>
  Claim C1, as stated, fails: over the two bytes \<open>hi\<close> the reader of the signature \<open>s\<close>
  finds no terminator, \<^verbatim>\<open>next_basic\<close> returns false, and \<open>sig_pos\<close> and \<open>pos\<close> have moved.
\<close>

theorem failed_next_basic_moves_cursor:
  "gvariant_iter_next_entry_basic ''hi'' reader_s (CHR ''s'') =
     Inr (False, reader_s \<lparr> sig_pos := 1, pos := 2 \<rparr>, None) \<and>
   sig_pos (reader_s \<lparr> sig_pos := 1, pos := 2 \<rparr>) \<noteq> sig_pos reader_s \<and>
   pos (reader_s \<lparr> sig_pos := 1, pos := 2 \<rparr>) \<noteq> pos reader_s"
  using reader_s_next_basic by (simp add: reader_s_def)

text \<open>
  Claim C1, amended. Whatever \<^verbatim>\<open>next_basic\<close>, \<^verbatim>\<open>enter_struct\<close>, \<^verbatim>\<open>enter_array\<close> or
  \<^verbatim>\<open>enter_variant\<close> returns (failure included), the fields \<open>message\<close>, \<open>sig_start\<close>,
  \<open>sig_len\<close>, \<open>data\<close>, \<open>len\<close> and \<open>container_type\<close> of the reader are as before the call.
  The whole reader is as before when the operation fails at its own guards
  (\<^verbatim>\<open>next_basic\<close> at \<open>pos \<ge> len\<close>; a current signature character other than the one the
  operation expects) or when \<^verbatim>\<open>next_item\<close> finds no complete type at the cursor.
  Once the guards have passed and \<^verbatim>\<open>next_item\<close> has returned, the reader after the
  operation is exactly the reader \<^verbatim>\<open>next_item\<close> left, whatever the operation returns: a
  failure detected later leaves \<open>sig_pos\<close>, \<open>pos\<close> and \<open>offsets\<close> as \<^verbatim>\<open>next_item\<close>
  advanced them.
\<close>

theorem failure_keeps_frame_and_guards_keep_reader:
  "(\<forall>t b it' v. gvariant_iter_next_entry_basic h it t = Inr (b, it', v) \<longrightarrow> same_frame it it') \<and>
   (\<forall>c0 b it' c. gvariant_iter_enter_struct h it c0 = Inr (b, it', c) \<longrightarrow> same_frame it it') \<and>
   (\<forall>c0 b it' c. gvariant_iter_enter_array h it c0 = Inr (b, it', c) \<longrightarrow> same_frame it it') \<and>
   (\<forall>c0 b it' c. gvariant_iter_enter_variant h it c0 = Inr (b, it', c) \<longrightarrow> same_frame it it') \<and>
   (\<forall>t. len it \<le> pos it \<longrightarrow> gvariant_iter_next_entry_basic h it t = Inr (False, it, None)) \<and>
   (\<forall>t c. sig_at it = Inr c \<and> c \<noteq> t \<longrightarrow>
      gvariant_iter_next_entry_basic h it t = Inr (False, it, None)) \<and>
   (\<forall>c0 c. sig_at it = Inr c \<and> c \<noteq> CHR ''{'' \<and> c \<noteq> CHR ''('' \<longrightarrow>
      gvariant_iter_enter_struct h it c0 = Inr (False, it, c0)) \<and>
   (\<forall>c0 c. sig_at it = Inr c \<and> c \<noteq> CHR ''a'' \<longrightarrow>
      gvariant_iter_enter_array h it c0 = Inr (False, it, c0)) \<and>
   (\<forall>c0 c. sig_at it = Inr c \<and> c \<noteq> CHR ''v'' \<longrightarrow>
      gvariant_iter_enter_variant h it c0 = Inr (False, it, c0)) \<and>
   (\<forall>t c0 c. next_item h it = Inr (None, it) \<and> sig_at it = Inr c \<longrightarrow>
      gvariant_iter_next_entry_basic h it t = Inr (False, it, None) \<and>
      gvariant_iter_enter_struct h it c0 = Inr (False, it, c0) \<and>
      gvariant_iter_enter_array h it c0 = Inr (False, it, c0) \<and>
      gvariant_iter_enter_variant h it c0 = Inr (False, it, c0)) \<and>
   (sig_pos it \<le> sig_len it \<and> sig_len it - sig_pos it \<le> 255 \<and>
    sig_len it \<le> length (sig_start it) \<and> validate_next_type (sig_copy it) = Inr None \<longrightarrow>
      next_item h it = Inr (None, it)) \<and>
   (\<forall>t r it1 b it' v.
      pos it < len it \<and> sig_at it = Inr t \<and> next_item h it = Inr (r, it1) \<and>
      gvariant_iter_next_entry_basic h it t = Inr (b, it', v) \<longrightarrow> it' = it1) \<and>
   (\<forall>c c0 r it1 b it' ch.
      sig_at it = Inr c \<and> (c = CHR ''{'' \<or> c = CHR ''('') \<and>
      next_item h it = Inr (r, it1) \<and>
      gvariant_iter_enter_struct h it c0 = Inr (b, it', ch) \<longrightarrow> it' = it1) \<and>
   (\<forall>c0 r it1 b it' ch.
      sig_at it = Inr (CHR ''a'') \<and> next_item h it = Inr (r, it1) \<and>
      gvariant_iter_enter_array h it c0 = Inr (b, it', ch) \<longrightarrow> it' = it1) \<and>
   (\<forall>c0 r it1 b it' ch.
      sig_at it = Inr (CHR ''v'') \<and> next_item h it = Inr (r, it1) \<and>
      gvariant_iter_enter_variant h it c0 = Inr (b, it', ch) \<longrightarrow> it' = it1)"
proof -
  have 1: "\<forall>t b it' v. gvariant_iter_next_entry_basic h it t = Inr (b, it', v) \<longrightarrow> same_frame it it'"
    using next_basic_steps step_same_frame by blast
  have 2: "\<forall>c0 b it' c. gvariant_iter_enter_struct h it c0 = Inr (b, it', c) \<longrightarrow> same_frame it it'"
    using enter_struct_steps step_same_frame by blast
  have 3: "\<forall>c0 b it' c. gvariant_iter_enter_array h it c0 = Inr (b, it', c) \<longrightarrow> same_frame it it'"
    using enter_array_steps step_same_frame by blast
  have 4: "\<forall>c0 b it' c. gvariant_iter_enter_variant h it c0 = Inr (b, it', c) \<longrightarrow> same_frame it it'"
    using enter_variant_steps step_same_frame by blast
  have 5: "\<forall>t. len it \<le> pos it \<longrightarrow> gvariant_iter_next_entry_basic h it t = Inr (False, it, None)"
    by (simp add: gvariant_iter_next_entry_basic_def)
  have 6: "\<forall>t c. sig_at it = Inr c \<and> c \<noteq> t \<longrightarrow>
      gvariant_iter_next_entry_basic h it t = Inr (False, it, None)"
    by (auto simp: gvariant_iter_next_entry_basic_def)
  have 7: "\<forall>c0 c. sig_at it = Inr c \<and> c \<noteq> CHR ''{'' \<and> c \<noteq> CHR ''('' \<longrightarrow>
      gvariant_iter_enter_struct h it c0 = Inr (False, it, c0)"
    by (auto simp: gvariant_iter_enter_struct_def)
  have 8: "\<forall>c0 c. sig_at it = Inr c \<and> c \<noteq> CHR ''a'' \<longrightarrow>
      gvariant_iter_enter_array h it c0 = Inr (False, it, c0)"
    by (auto simp: gvariant_iter_enter_array_def)
  have 9: "\<forall>c0 c. sig_at it = Inr c \<and> c \<noteq> CHR ''v'' \<longrightarrow>
      gvariant_iter_enter_variant h it c0 = Inr (False, it, c0)"
    by (auto simp: gvariant_iter_enter_variant_def)
  have 10: "\<forall>t c0 c. next_item h it = Inr (None, it) \<and> sig_at it = Inr c \<longrightarrow>
      gvariant_iter_next_entry_basic h it t = Inr (False, it, None) \<and>
      gvariant_iter_enter_struct h it c0 = Inr (False, it, c0) \<and>
      gvariant_iter_enter_array h it c0 = Inr (False, it, c0) \<and>
      gvariant_iter_enter_variant h it c0 = Inr (False, it, c0)"
    by (auto simp: gvariant_iter_next_entry_basic_def gvariant_iter_enter_struct_def
        gvariant_iter_enter_array_def gvariant_iter_enter_variant_def Let_def)
  have 11: "sig_pos it \<le> sig_len it \<and> sig_len it - sig_pos it \<le> 255 \<and>
    sig_len it \<le> length (sig_start it) \<and> validate_next_type (sig_copy it) = Inr None \<longrightarrow>
      next_item h it = Inr (None, it)"
    using next_item_no_type by blast
  have 12: "\<forall>t r it1 b it' v.
      pos it < len it \<and> sig_at it = Inr t \<and> next_item h it = Inr (r, it1) \<and>
      gvariant_iter_next_entry_basic h it t = Inr (b, it', v) \<longrightarrow> it' = it1"
    using next_basic_after_next_item by blast
  have 13: "\<forall>c c0 r it1 b it' ch.
      sig_at it = Inr c \<and> (c = CHR ''{'' \<or> c = CHR ''('') \<and>
      next_item h it = Inr (r, it1) \<and>
      gvariant_iter_enter_struct h it c0 = Inr (b, it', ch) \<longrightarrow> it' = it1"
    using enter_struct_after_next_item by blast
  have 14: "\<forall>c0 r it1 b it' ch.
      sig_at it = Inr (CHR ''a'') \<and> next_item h it = Inr (r, it1) \<and>
      gvariant_iter_enter_array h it c0 = Inr (b, it', ch) \<longrightarrow> it' = it1"
    using enter_array_after_next_item by blast
  have 15: "\<forall>c0 r it1 b it' ch.
      sig_at it = Inr (CHR ''v'') \<and> next_item h it = Inr (r, it1) \<and>
      gvariant_iter_enter_variant h it c0 = Inr (b, it', ch) \<longrightarrow> it' = it1"
    using enter_variant_after_next_item by blast
  from 1 2 3 4 5 6 7 8 9 10 11 12 13 14 15 show ?thesis by blast
qed

theorem failure_keeps_frame_witness:
  "gvariant_iter_next_entry_basic ''hi'' reader_s (CHR ''s'')
     = Inr (False, reader_s \<lparr> sig_pos := 1, pos := 2 \<rparr>, None) \<and>
   same_frame reader_s (reader_s \<lparr> sig_pos := 1, pos := 2 \<rparr>) \<and>
   sig_at reader_s = Inr (CHR ''s'') \<and>
   gvariant_iter_next_entry_basic ''hi'' reader_s (CHR ''i'') = Inr (False, reader_s, None) \<and>
   pos reader_s < len reader_s \<and>
   next_item ''hi'' reader_s = Inr (Some (0, 2), reader_s \<lparr> sig_pos := 1, pos := 2 \<rparr>) \<and>
   (\<exists>b it' v. gvariant_iter_next_entry_basic ''hi'' reader_s (CHR ''s'') = Inr (b, it', v) \<and>
      it' = reader_s \<lparr> sig_pos := 1, pos := 2 \<rparr>)"
proof -
  note T = failure_keeps_frame_and_guards_keep_reader [of "''hi''" reader_s]
  have p: "pos reader_s < len reader_s"
    by (simp add: reader_s_def)
  have s: "sig_at reader_s = Inr (CHR ''s'')"
    by (simp add: sig_at_def reader_s_def)
  from T [THEN conjunct1] reader_s_next_basic
  have f: "same_frame reader_s (reader_s \<lparr> sig_pos := 1, pos := 2 \<rparr>)"
    by (elim allE impE) assumption+
  from T [THEN conjunct2, THEN conjunct2, THEN conjunct2, THEN conjunct2, THEN conjunct2,
      THEN conjunct1]
  have "sig_at reader_s = Inr (CHR ''s'') \<and> CHR ''s'' \<noteq> CHR ''i'' \<longrightarrow>
      gvariant_iter_next_entry_basic ''hi'' reader_s (CHR ''i'') = Inr (False, reader_s, None)"
    by (elim allE)
  with s have g: "gvariant_iter_next_entry_basic ''hi'' reader_s (CHR ''i'')
      = Inr (False, reader_s, None)"
    by simp
  from T [THEN conjunct2, THEN conjunct2, THEN conjunct2, THEN conjunct2, THEN conjunct2,
      THEN conjunct2, THEN conjunct2, THEN conjunct2, THEN conjunct2, THEN conjunct2,
      THEN conjunct2, THEN conjunct1]
  have "pos reader_s < len reader_s \<and> sig_at reader_s = Inr (CHR ''s'') \<and>
      next_item ''hi'' reader_s = Inr (Some (0, 2), reader_s \<lparr> sig_pos := 1, pos := 2 \<rparr>) \<and>
      gvariant_iter_next_entry_basic ''hi'' reader_s (CHR ''s'') =
        Inr (False, reader_s \<lparr> sig_pos := 1, pos := 2 \<rparr>, None) \<longrightarrow>
      reader_s \<lparr> sig_pos := 1, pos := 2 \<rparr> = reader_s \<lparr> sig_pos := 1, pos := 2 \<rparr>"
    by (elim allE)
  with p s reader_s_next_item reader_s_next_basic
  have l: "\<exists>b it' v. gvariant_iter_next_entry_basic ''hi'' reader_s (CHR ''s'') = Inr (b, it', v) \<and>
      it' = reader_s \<lparr> sig_pos := 1, pos := 2 \<rparr>"
    by blast
  from reader_s_next_basic f s g p reader_s_next_item l show ?thesis by blast
qed

section \<open>Truncated frames\<close>

lemma frame_one_byte_init:
  "gvariant_iter_init [b] iter0 msg (''i'' @ [NUL]) None 0 1 =
    Inr (True, iter0 \<lparr> message := msg, sig_start := ''i'' @ [NUL], sig_len := 1,
      sig_pos := 0, data := 0, len := 1, pos := 0, offsets := None,
      container_type := DBUS_CONTAINER_TYPE_STRUCT \<rparr>)"
  by (simp add: sig_eval reader_eval)

lemma frame_one_byte_next_item:
  "next_item [b]
     (iter0 \<lparr> message := msg, sig_start := ''i'' @ [NUL], sig_len := 1,
      sig_pos := 0, data := 0, len := 1, pos := 0, offsets := None,
      container_type := DBUS_CONTAINER_TYPE_STRUCT \<rparr>) =
    Inr (Some (0, 4), iter0 \<lparr> message := msg, sig_start := ''i'' @ [NUL], sig_len := 1,
      sig_pos := 1, data := 0, len := 1, pos := 4, offsets := None,
      container_type := DBUS_CONTAINER_TYPE_STRUCT \<rparr>)"
  by (simp add: sig_eval reader_eval)

lemma frame_one_byte_next_basic:
  "gvariant_iter_next_entry_basic [b]
     (iter0 \<lparr> message := msg, sig_start := ''i'' @ [NUL], sig_len := 1,
      sig_pos := 0, data := 0, len := 1, pos := 0, offsets := None,
      container_type := DBUS_CONTAINER_TYPE_STRUCT \<rparr>) (CHR ''i'') = Inl OutOfBounds"
  by (simp add: sig_eval reader_eval)

text \<open>
  Claim C2 fails on the code. Over a frame of one byte, the initialisation of a reader
  with the signature \<open>i\<close> succeeds (the bound check of the layout analyzer skips the
  first child), \<^verbatim>\<open>next_item\<close> hands out the four-byte extent at offset 0 (it checks the
  start of the child against the frame, not its end), and \<^verbatim>\<open>next_basic\<close> reads the bytes
  at offsets 1 to 3, past the frame, instead of returning false.
\<close>

theorem one_byte_frame_i_is_read_past_its_end:
  "\<exists>iter1 iter2.
     gvariant_iter_init [b] iter0 msg (''i'' @ [NUL]) None 0 1 = Inr (True, iter1) \<and>
     next_item [b] iter1 = Inr (Some (0, 4), iter2) \<and>
     gvariant_iter_next_entry_basic [b] iter1 (CHR ''i'') = Inl OutOfBounds"
  using frame_one_byte_init frame_one_byte_next_item frame_one_byte_next_basic by blast

section \<open>Scenario S3: the struct (si)\<close>

lemma frame_si_init:
  "gvariant_iter_init (frame_si pad) iter0 msg (''si'' @ [NUL]) None 0 9 =
    Inr (True, iter0 \<lparr> message := msg, sig_start := ''si'' @ [NUL], sig_len := 2,
      sig_pos := 0, data := 0, len := 9, pos := 0, offsets := Some 8,
      container_type := DBUS_CONTAINER_TYPE_STRUCT \<rparr>)"
  by (simp add: frame_si_def sig_eval reader_eval)

lemma frame_si_first:
  "gvariant_iter_next_entry_basic (frame_si pad)
     (iter0 \<lparr> message := msg, sig_start := ''si'' @ [NUL], sig_len := 2,
      sig_pos := 0, data := 0, len := 9, pos := 0, offsets := Some 8,
      container_type := DBUS_CONTAINER_TYPE_STRUCT \<rparr>) (CHR ''s'') =
    Inr (True, iter0 \<lparr> message := msg, sig_start := ''si'' @ [NUL], sig_len := 2,
      sig_pos := 1, data := 0, len := 9, pos := 3, offsets := Some 7,
      container_type := DBUS_CONTAINER_TYPE_STRUCT \<rparr>, Some (String 0))"
  by (simp add: frame_si_def sig_eval reader_eval)

lemma frame_si_second:
  "gvariant_iter_next_entry_basic (frame_si pad)
     (iter0 \<lparr> message := msg, sig_start := ''si'' @ [NUL], sig_len := 2,
      sig_pos := 1, data := 0, len := 9, pos := 3, offsets := Some 7,
      container_type := DBUS_CONTAINER_TYPE_STRUCT \<rparr>) (CHR ''i'') =
    Inr (True, iter0 \<lparr> message := msg, sig_start := ''si'' @ [NUL], sig_len := 2,
      sig_pos := 2, data := 0, len := 9, pos := 8, offsets := Some 7,
      container_type := DBUS_CONTAINER_TYPE_STRUCT \<rparr>, Some (Int32 7))"
  by (simp add: frame_si_def sig_eval reader_eval)

text \<open>
  Claim C3. Over the nine-byte frame of the scenario, whatever the pad byte and whatever
  the reader held before, initialising a reader with the signature \<open>si\<close> succeeds; the
  first \<open>next_basic\<close> with type \<open>s\<close> succeeds and stores the pointer to offset 0, where
  the string \<open>hi\<close> stands with its terminator; the next \<open>next_basic\<close> with type \<open>i\<close>
  succeeds and stores 7.
\<close>

theorem struct_si_reads_hi_then_7:
  "\<exists>iter1 iter2 iter3.
     gvariant_iter_init (frame_si pad) iter0 msg (''si'' @ [NUL]) None 0 9 = Inr (True, iter1) \<and>
     gvariant_iter_next_entry_basic (frame_si pad) iter1 (CHR ''s'')
       = Inr (True, iter2, Some (String 0)) \<and>
     c_string_at (frame_si pad) 0 = Some ''hi'' \<and>
     gvariant_iter_next_entry_basic (frame_si pad) iter2 (CHR ''i'')
       = Inr (True, iter3, Some (Int32 7))"
proof -
  have "c_string_at (frame_si pad) 0 = Some ''hi''"
    by (simp add: c_string_at_def frame_si_def)
  then show ?thesis
    using frame_si_init frame_si_first frame_si_second by blast
qed

section \<open>The dictionary key at the end of the string\<close>

lemma open_brace:
  "gvariant_valid_signature (''{'' @ [NUL]) = Inl OutOfBounds"
  "gvariant_valid_signature (''{'' @ [NUL] @ ''i}'' @ [NUL]) = Inr True"
  "gvariant_valid_signature (''{'' @ [NUL] @ ''i'' @ [NUL]) = Inr False"
  by (simp_all add: sig_eval)

text \<open>
  Claim C4 fails on the code at the string \<open>{\<close>. The key of a dictionary entry is
  tested with \<^verbatim>\<open>strchr(simple_types, s)\<close>, which finds the terminator of \<open>simple_types\<close>
  when \<open>s\<close> is \<open>NUL\<close>; the validator then goes on one byte past the end of the string.
  When the object ends there the read is out of bounds, and otherwise the answer is
  decided by the bytes that follow the terminator.
\<close>

theorem valid_signature_reads_past_terminator:
  "gvariant_valid_signature (''{'' @ [NUL]) = Inl OutOfBounds \<and>
   gvariant_valid_signature (''{'' @ [NUL] @ ''i}'' @ [NUL]) = Inr True \<and>
   gvariant_valid_signature (''{'' @ [NUL] @ ''i'' @ [NUL]) = Inr False"
  using open_brace by blast

section \<open>The unit type\<close>

lemma unit_signature:
  "gvariant_valid_signature (''()'' @ [NUL]) = Inr True"
  "gvariant_is_fixed_size (''()'' @ [NUL]) = Inr True"
  "gvariant_get_fixed_size (''()'' @ [NUL]) = Inr 1"
  "gvariant_get_alignment (''()'' @ [NUL]) = Inr 1"
  by (simp_all add: sig_eval)

lemma unit_frame_init:
  "gvariant_iter_init [b] iter0 msg (''()'' @ [NUL]) None 0 1 =
    Inr (True, iter0 \<lparr> message := msg, sig_start := ''()'' @ [NUL], sig_len := 2,
      sig_pos := 0, data := 0, len := 1, pos := 0, offsets := None,
      container_type := DBUS_CONTAINER_TYPE_STRUCT \<rparr>)"
  by (simp add: sig_eval reader_eval)

lemma unit_frame_enter_struct:
  "gvariant_iter_enter_struct [b]
     (iter0 \<lparr> message := msg, sig_start := ''()'' @ [NUL], sig_len := 2,
      sig_pos := 0, data := 0, len := 1, pos := 0, offsets := None,
      container_type := DBUS_CONTAINER_TYPE_STRUCT \<rparr>) child0 = Inl NullPointer"
  by (simp add: sig_eval reader_eval)

text \<open>
  Claim C5 fails on the code at the unit type. The signature \<open>()\<close> is valid and of
  fixed size 1, a multiple of its alignment 1, and a reader over a frame of one byte is
  initialised; but its only child cannot be extracted: \<^verbatim>\<open>enter_struct\<close> initialises the
  child reader over the empty window, where \<^verbatim>\<open>_gvariant_num_children\<close> returns \<open>-1\<close>,
  stored as 255 children, and the walk over them uses the null pointer that
  \<^verbatim>\<open>validate_next_type\<close> returns at the closing parenthesis.
\<close>

theorem unit_struct_child_cannot_be_entered:
  "gvariant_valid_signature (''()'' @ [NUL]) = Inr True \<and>
   gvariant_is_fixed_size (''()'' @ [NUL]) = Inr True \<and>
   gvariant_get_fixed_size (''()'' @ [NUL]) = Inr 1 \<and>
   gvariant_get_alignment (''()'' @ [NUL]) = Inr 1 \<and>
   (\<exists>iter1.
      gvariant_iter_init [b] iter0 msg (''()'' @ [NUL]) None 0 1 = Inr (True, iter1) \<and>
      gvariant_iter_enter_struct [b] iter1 child0 = Inl NullPointer)"
  using unit_signature unit_frame_init unit_frame_enter_struct by blast

section \<open>A variant with a signature of 255 bytes\<close>

lemma validate_arrays:
  "validate_next_type (replicate n (CHR ''a'') @ s) = validate_next_type s"
  by (induction n) (simp_all add: validate_next_type.simps strchr_def simple_types_def)

lemma sig255_valid:
  "length sig255 = 255"
  "NUL \<notin> set sig255"
  "gvariant_valid_signature (sig255 @ [NUL]) = Inr True"
  "gvariant_num_children (sig255 @ [NUL]) = Inr 1"
  by (simp_all add: sig255_def gvariant_valid_signature.simps gvariant_num_children_def
      num_children_loop.simps validate_arrays,
      simp_all add: validate_next_type.simps strchr_def simple_types_def)

lemma takeWhile_replicate_append:
  "P x \<Longrightarrow> takeWhile P (replicate n x @ ys) = replicate n x @ takeWhile P ys"
  by (induction n) simp_all

lemma frame_v255_init:
  "gvariant_iter_init frame_v255 iter0 msg (''v'' @ [NUL]) None 0 256 =
    Inr (True, iter0 \<lparr> message := msg, sig_start := ''v'' @ [NUL], sig_len := 1,
      sig_pos := 0, data := 0, len := 256, pos := 0, offsets := None,
      container_type := DBUS_CONTAINER_TYPE_STRUCT \<rparr>)"
  by (simp add: sig_eval reader_eval)

lemma frame_v255_next_item:
  "next_item frame_v255
     (iter0 \<lparr> message := msg, sig_start := ''v'' @ [NUL], sig_len := 1,
      sig_pos := 0, data := 0, len := 256, pos := 0, offsets := None,
      container_type := DBUS_CONTAINER_TYPE_STRUCT \<rparr>) =
    Inr (Some (0, 256), iter0 \<lparr> message := msg, sig_start := ''v'' @ [NUL], sig_len := 1,
      sig_pos := 1, data := 0, len := 256, pos := 256, offsets := None,
      container_type := DBUS_CONTAINER_TYPE_STRUCT \<rparr>)"
  by (simp add: sig_eval reader_eval)

lemma frame_v255_memrchr:
  "memrchr frame_v255 0 256 = Inr (Some 0)"
  by (simp add: memrchr_def frame_v255_def sig255_def takeWhile_replicate_append)

lemma frame_v255_enter_variant:
  "gvariant_iter_enter_variant frame_v255
     (iter0 \<lparr> message := msg, sig_start := ''v'' @ [NUL], sig_len := 1,
      sig_pos := 0, data := 0, len := 256, pos := 0, offsets := None,
      container_type := DBUS_CONTAINER_TYPE_STRUCT \<rparr>) child0 = Inl BufferOverflow"
  by (simp add: frame_v255_def sig255_def sig_eval reader_eval takeWhile_replicate_append)

lemma variant_i32_entered:
  "gvariant_iter_enter_variant frame_v_i32
     (iter0 \<lparr> message := msg, sig_start := ''v'' @ [NUL], sig_len := 1,
      sig_pos := 0, data := 0, len := 6, pos := 0, offsets := None,
      container_type := DBUS_CONTAINER_TYPE_STRUCT \<rparr>) child0 =
    Inr (True,
      iter0 \<lparr> message := msg, sig_start := ''v'' @ [NUL], sig_len := 1,
        sig_pos := 1, data := 0, len := 6, pos := 6, offsets := None,
        container_type := DBUS_CONTAINER_TYPE_STRUCT \<rparr>,
      child0 \<lparr> message := msg, sig_start := ''i'', sig_len := 1, sig_pos := 0,
        data := 0, len := 4, pos := 0, offsets := None,
        container_type := DBUS_CONTAINER_TYPE_VARIANT \<rparr>)"
  by (simp add: frame_v_i32_def sig_eval reader_eval)

lemma variant_without_nul_refused:
  "gvariant_iter_enter_variant [CHR 0x2A, CHR ''i'']
     (iter0 \<lparr> message := msg, sig_start := ''v'' @ [NUL], sig_len := 1,
      sig_pos := 0, data := 0, len := 2, pos := 0, offsets := None,
      container_type := DBUS_CONTAINER_TYPE_STRUCT \<rparr>) child0 =
    Inr (False,
      iter0 \<lparr> message := msg, sig_start := ''v'' @ [NUL], sig_len := 1,
        sig_pos := 1, data := 0, len := 2, pos := 2, offsets := None,
        container_type := DBUS_CONTAINER_TYPE_STRUCT \<rparr>, child0)"
  by (simp add: sig_eval reader_eval)

text \<open>
  Claim C6 fails on the code when the signature after the last \<open>NUL\<close> is exactly 255
  bytes long. The child extent holds a \<open>NUL\<close>, the 255 bytes after it are a valid
  signature of one complete type, and the length check \<open>> 255\<close> lets them pass; but the
  local buffer is \<^verbatim>\<open>char signature[255]\<close>, and the terminator is written at index 255,
  past its end, so the call does not return true as the claim has it.
\<close>

theorem variant_signature_of_255_bytes_overflows:
  "length sig255 = 255 \<and>
   gvariant_valid_signature (sig255 @ [NUL]) = Inr True \<and>
   gvariant_num_children (sig255 @ [NUL]) = Inr 1 \<and>
   (\<exists>iter1 iter2.
      gvariant_iter_init frame_v255 iter0 msg (''v'' @ [NUL]) None 0 256 = Inr (True, iter1) \<and>
      next_item frame_v255 iter1 = Inr (Some (0, 256), iter2) \<and>
      memrchr frame_v255 0 256 = Inr (Some 0) \<and>
      gvariant_iter_enter_variant frame_v255 iter1 child0 = Inl BufferOverflow)"
  using sig255_valid frame_v255_init frame_v255_next_item frame_v255_memrchr
    frame_v255_enter_variant by blast

section \<open>Terminal readers\<close>

lemma next_item_exhausted:
  "sig_pos it = sig_len it \<Longrightarrow> next_item h it = Inr (None, it)"
  by (simp add: next_item_def sig_copy_def validate_next_type.simps)

lemma next_item_past_end:
  assumes "len it \<le> pos it" and "pos it + 7 < 2 ^ 64"
    and "next_item h it = Inr (r, it')"
  shows "r = None"
proof (cases r)
  case None
  then show ?thesis .
next
  case (Some x)
  obtain start n where x: "x = (start, n)" by (cases x)
  from next_item_cases(3) [OF assms(3), of start n] Some x obtain p al where
    v: "validate_next_type (sig_copy it) = Inr (Some (p, al))"
    and st: "start = data it + int (size_t (int (align_len (pos it) al)))"
    and lt: "start < data it + int (len it)"
    by blast
  from validate_alignment_both(1) [OF v] have al: "al \<in> {1, 2, 4, 8}" .
  from align_len_bounds [OF al, of "pos it"]
  have lo: "pos it \<le> align_len (pos it) al" and hi: "align_len (pos it) al < pos it + al"
    by simp_all
  from al have "al \<le> 8" by auto
  with hi assms(2) have "align_len (pos it) al < 2 ^ 64" by simp
  then have "size_t (int (align_len (pos it) al)) = align_len (pos it) al"
    unfolding size_t_def
    by (metis int_ops(3) nat_int of_nat_less_numeral_power_cancel_iff zmod_int mod_less of_nat_numeral of_nat_power)
  with st lt lo assms(1) show ?thesis by simp
qed

lemma terminal_next_item:
  assumes "terminal it" and "pos it + 7 < 2 ^ 64" and "next_item h it = Inr (r, it')"
  shows "r = None"
  using assms next_item_exhausted [of it h] next_item_past_end [of it h r it']
  unfolding terminal_def by auto


lemma ops_exhausted:
  assumes "sig_pos it = sig_len it" and "sig_pos it < length (sig_start it)"
  shows "gvariant_iter_next_entry_basic h it t = Inr (False, it, None)"
    and "gvariant_iter_enter_struct h it c0 = Inr (False, it, c0)"
    and "gvariant_iter_enter_array h it c0 = Inr (False, it, c0)"
    and "gvariant_iter_enter_variant h it c0 = Inr (False, it, c0)"
  using assms next_item_exhausted [OF assms(1), of h]
  by (simp_all add: gvariant_iter_next_entry_basic_def gvariant_iter_enter_struct_def
      gvariant_iter_enter_array_def gvariant_iter_enter_variant_def sig_at_def Let_def)

lemma ops_after_null:
  assumes "next_item h it = Inr (None, it')" and "sig_at it = Inr c"
  shows "returns_false (gvariant_iter_enter_struct h it c0)"
    and "returns_false (gvariant_iter_enter_array h it c0)"
    and "returns_false (gvariant_iter_enter_variant h it c0)"
  using assms
  by (simp_all add: gvariant_iter_enter_struct_def gvariant_iter_enter_array_def
      gvariant_iter_enter_variant_def returns_false_def Let_def)

text \<open>
  What holds of terminal readers in the model, where pointers do not wrap around and
  under the hypothesis that aligning \<open>pos\<close> does not overflow \<^verbatim>\<open>size_t\<close>: no extraction
  returns true. \<^verbatim>\<open>next_basic\<close> at \<open>pos \<ge> len\<close> returns false with the reader untouched;
  with the signature exhausted and the byte at the cursor readable all four operations
  do; and the three descents return false whenever the read of the current signature
  character and \<^verbatim>\<open>next_item\<close> return at all. Neither proviso can be dropped, as the two
  readers after this lemma show.
\<close>

lemma terminal_reader_never_true:
  assumes "terminal it" and "pos it + 7 < 2 ^ 64"
  shows
    "\<not> returns_true (gvariant_iter_next_entry_basic h it t) \<and>
     \<not> returns_true (gvariant_iter_enter_struct h it c0) \<and>
     \<not> returns_true (gvariant_iter_enter_array h it c0) \<and>
     \<not> returns_true (gvariant_iter_enter_variant h it c0) \<and>
     (len it \<le> pos it \<longrightarrow> gvariant_iter_next_entry_basic h it t = Inr (False, it, None)) \<and>
     (sig_pos it = sig_len it \<and> sig_pos it < length (sig_start it) \<longrightarrow>
        gvariant_iter_next_entry_basic h it t = Inr (False, it, None) \<and>
        gvariant_iter_enter_struct h it c0 = Inr (False, it, c0) \<and>
        gvariant_iter_enter_array h it c0 = Inr (False, it, c0) \<and>
        gvariant_iter_enter_variant h it c0 = Inr (False, it, c0)) \<and>
     ((\<exists>c. sig_at it = Inr c) \<and> (\<exists>x. next_item h it = Inr x) \<longrightarrow>
        returns_false (gvariant_iter_enter_struct h it c0) \<and>
        returns_false (gvariant_iter_enter_array h it c0) \<and>
        returns_false (gvariant_iter_enter_variant h it c0))"
proof -
  have none: "r = None" if "next_item h it = Inr (r, it')" for r it'
    using terminal_next_item [OF assms that] .
  have a: "\<not> returns_true (gvariant_iter_next_entry_basic h it t)"
  proof
    assume "returns_true (gvariant_iter_next_entry_basic h it t)"
    then obtain it' v where "gvariant_iter_next_entry_basic h it t = Inr (True, it', v)"
      by (auto simp: returns_true_def split: sum.splits)
    from next_basic_steps [OF this] none show False by auto
  qed
  have b: "\<not> returns_true (gvariant_iter_enter_struct h it c0)"
  proof
    assume "returns_true (gvariant_iter_enter_struct h it c0)"
    then obtain it' c where "gvariant_iter_enter_struct h it c0 = Inr (True, it', c)"
      by (auto simp: returns_true_def split: sum.splits)
    from enter_struct_steps [OF this] none show False by auto
  qed
  have c: "\<not> returns_true (gvariant_iter_enter_array h it c0)"
  proof
    assume "returns_true (gvariant_iter_enter_array h it c0)"
    then obtain it' c where "gvariant_iter_enter_array h it c0 = Inr (True, it', c)"
      by (auto simp: returns_true_def split: sum.splits)
    from enter_array_steps [OF this] none show False by auto
  qed
  have d: "\<not> returns_true (gvariant_iter_enter_variant h it c0)"
  proof
    assume "returns_true (gvariant_iter_enter_variant h it c0)"
    then obtain it' c where "gvariant_iter_enter_variant h it c0 = Inr (True, it', c)"
      by (auto simp: returns_true_def split: sum.splits)
    from enter_variant_steps [OF this] none show False by auto
  qed
  have e: "len it \<le> pos it \<longrightarrow> gvariant_iter_next_entry_basic h it t = Inr (False, it, None)"
    by (simp add: gvariant_iter_next_entry_basic_def)
  have f: "sig_pos it = sig_len it \<and> sig_pos it < length (sig_start it) \<longrightarrow>
        gvariant_iter_next_entry_basic h it t = Inr (False, it, None) \<and>
        gvariant_iter_enter_struct h it c0 = Inr (False, it, c0) \<and>
        gvariant_iter_enter_array h it c0 = Inr (False, it, c0) \<and>
        gvariant_iter_enter_variant h it c0 = Inr (False, it, c0)"
    using ops_exhausted [of it] by blast
  have g: "(\<exists>c. sig_at it = Inr c) \<and> (\<exists>x. next_item h it = Inr x) \<longrightarrow>
        returns_false (gvariant_iter_enter_struct h it c0) \<and>
        returns_false (gvariant_iter_enter_array h it c0) \<and>
        returns_false (gvariant_iter_enter_variant h it c0)"
  proof (intro impI, elim conjE exE)
    fix c x assume s: "sig_at it = Inr c" and n: "next_item h it = Inr x"
    obtain r it' where x: "x = (r, it')" by (cases x)
    with n none have "next_item h it = Inr (None, it')" by simp
    from ops_after_null [OF this s]
    show "returns_false (gvariant_iter_enter_struct h it c0) \<and>
        returns_false (gvariant_iter_enter_array h it c0) \<and>
        returns_false (gvariant_iter_enter_variant h it c0)" by blast
  qed
  from a b c d e f g show ?thesis by blast
qed

lemma terminal_reader_done_refused:
  "terminal reader_done \<and> pos reader_done + 7 < 2 ^ 64 \<and>
   \<not> returns_true (gvariant_iter_next_entry_basic [CHR 0x07, NUL, NUL, NUL] reader_done (CHR ''i'')) \<and>
   gvariant_iter_enter_struct [CHR 0x07, NUL, NUL, NUL] reader_done reader_done
     = Inr (False, reader_done, reader_done)"
proof -
  have t: "terminal reader_done" and p: "pos reader_done + 7 < 2 ^ 64"
    by (simp_all add: terminal_def reader_done_def)
  have e: "sig_pos reader_done = sig_len reader_done \<and>
      sig_pos reader_done < length (sig_start reader_done)"
    by (simp add: reader_done_def)
  note T = terminal_reader_never_true [OF t p,
      of "[CHR 0x07, NUL, NUL, NUL]" "CHR ''i''" reader_done]
  from T have "\<not> returns_true
      (gvariant_iter_next_entry_basic [CHR 0x07, NUL, NUL, NUL] reader_done (CHR ''i''))"
    by (rule conjunct1)
  moreover from T e have "gvariant_iter_enter_struct [CHR 0x07, NUL, NUL, NUL] reader_done
      reader_done = Inr (False, reader_done, reader_done)"
    by blast
  ultimately show ?thesis using t p by blast
qed

text \<open>
  The overflow of the alignment: the array reader below is terminal (\<open>pos \<ge> len\<close>),
  \<^verbatim>\<open>align_len\<close> wraps its \<open>pos\<close> to 0, the bound check passes and \<^verbatim>\<open>enter_struct\<close> returns
  true.
\<close>

lemma wrapped_terminal_reader_enters:
  "terminal reader_wrapped \<and>
   returns_true (gvariant_iter_enter_struct [NUL, NUL] reader_wrapped c0)"
  by (simp add: terminal_def returns_true_def reader_wrapped_def sig_eval reader_eval)

lemma variant_i32_read:
  "gvariant_iter_init frame_v_i32 reader_v 0 (''v'' @ [NUL]) None 0 6 = Inr (True, reader_v)"
  "gvariant_iter_enter_variant frame_v_i32 reader_v reader_v =
     Inr (True, reader_v \<lparr> sig_pos := 1, pos := 6 \<rparr>, variant_reader_i)"
  "gvariant_iter_next_entry_basic frame_v_i32 variant_reader_i (CHR ''i'') =
     Inr (True, variant_reader_i \<lparr> sig_pos := 1, pos := 4 \<rparr>, Some (Int32 42))"
  by (simp_all add: reader_v_def variant_reader_i_def frame_v_i32_def sig_eval reader_eval)

lemma variant_reader_exhausted:
  "terminal (variant_reader_i \<lparr> sig_pos := 1, pos := 4 \<rparr>)"
  "sig_pos (variant_reader_i \<lparr> sig_pos := 1, pos := 4 \<rparr>)
     = sig_len (variant_reader_i \<lparr> sig_pos := 1, pos := 4 \<rparr>)"
  "len (variant_reader_i \<lparr> sig_pos := 1, pos := 4 \<rparr>)
     \<le> pos (variant_reader_i \<lparr> sig_pos := 1, pos := 4 \<rparr>)"
  by (simp_all add: terminal_def variant_reader_i_def)

lemma variant_reader_exhausted_operations:
  "gvariant_iter_next_entry_basic frame_v_i32 (variant_reader_i \<lparr> sig_pos := 1, pos := 4 \<rparr>) t
     = Inr (False, variant_reader_i \<lparr> sig_pos := 1, pos := 4 \<rparr>, None)"
  "gvariant_iter_enter_struct frame_v_i32 (variant_reader_i \<lparr> sig_pos := 1, pos := 4 \<rparr>) c0
     = Inl OutOfBounds"
  "gvariant_iter_enter_array frame_v_i32 (variant_reader_i \<lparr> sig_pos := 1, pos := 4 \<rparr>) c0
     = Inl OutOfBounds"
  "gvariant_iter_enter_variant frame_v_i32 (variant_reader_i \<lparr> sig_pos := 1, pos := 4 \<rparr>) c0
     = Inl OutOfBounds"
  by (simp_all add: variant_reader_i_def frame_v_i32_def sig_eval reader_eval)

text \<open>
  Claim C7 fails on the code. The reader of scenario S6 is made by well-formed calls:
  a reader of the signature \<open>v\<close> over the six bytes \<open>2A 00 00 00 00 69\<close>,
  \<^verbatim>\<open>enter_variant\<close>, and \<^verbatim>\<open>next_basic\<close> with type \<open>i\<close>, which stores 42. The variant
  reader is then terminal on both counts (\<open>pos = len\<close> and \<open>sig_pos = sig_len\<close>), and
  \<^verbatim>\<open>next_basic\<close> returns false at its guard \<open>pos \<ge> len\<close>. The three descents have no such
  guard: each starts by reading \<open>sig_start[sig_pos]\<close>, the byte behind the signature
  window, which here is the byte behind the buffer, instead of returning false.
\<close>

theorem exhausted_variant_reader_descents_read_past_buffer:
  "gvariant_iter_init frame_v_i32 reader_v 0 (''v'' @ [NUL]) None 0 6 = Inr (True, reader_v) \<and>
   gvariant_iter_enter_variant frame_v_i32 reader_v reader_v =
     Inr (True, reader_v \<lparr> sig_pos := 1, pos := 6 \<rparr>, variant_reader_i) \<and>
   gvariant_iter_next_entry_basic frame_v_i32 variant_reader_i (CHR ''i'') =
     Inr (True, variant_reader_i \<lparr> sig_pos := 1, pos := 4 \<rparr>, Some (Int32 42)) \<and>
   terminal (variant_reader_i \<lparr> sig_pos := 1, pos := 4 \<rparr>) \<and>
   sig_pos (variant_reader_i \<lparr> sig_pos := 1, pos := 4 \<rparr>)
     = sig_len (variant_reader_i \<lparr> sig_pos := 1, pos := 4 \<rparr>) \<and>
   len (variant_reader_i \<lparr> sig_pos := 1, pos := 4 \<rparr>)
     \<le> pos (variant_reader_i \<lparr> sig_pos := 1, pos := 4 \<rparr>) \<and>
   gvariant_iter_next_entry_basic frame_v_i32 (variant_reader_i \<lparr> sig_pos := 1, pos := 4 \<rparr>) t
     = Inr (False, variant_reader_i \<lparr> sig_pos := 1, pos := 4 \<rparr>, None) \<and>
   gvariant_iter_enter_struct frame_v_i32 (variant_reader_i \<lparr> sig_pos := 1, pos := 4 \<rparr>) c0
     = Inl OutOfBounds \<and>
   gvariant_iter_enter_array frame_v_i32 (variant_reader_i \<lparr> sig_pos := 1, pos := 4 \<rparr>) c0
     = Inl OutOfBounds \<and>
   gvariant_iter_enter_variant frame_v_i32 (variant_reader_i \<lparr> sig_pos := 1, pos := 4 \<rparr>) c0
     = Inl OutOfBounds"
  using variant_i32_read variant_reader_exhausted variant_reader_exhausted_operations
  by blast

section \<open>Array readers never move the signature cursor\<close>

lemma step_keeps_array_cursor:
  assumes "container_type it = DBUS_CONTAINER_TYPE_ARRAY"
    and "(it' = it \<and> \<not> b) \<or> (\<exists>r. next_item h it = Inr (r, it') \<and> (b \<longrightarrow> r \<noteq> None))"
  shows "sig_pos it' = sig_pos it \<and> container_type it' = DBUS_CONTAINER_TYPE_ARRAY"
proof -
  from assms(2) consider "it' = it" | r where "next_item h it = Inr (r, it')" by blast
  then show ?thesis
  proof cases
    case 1
    with assms(1) show ?thesis by simp
  next
    case 2
    from next_item_cases(1) [OF 2] have "container_type it' = container_type it"
      by (cases it, cases it') simp
    with next_item_cases(2) [OF 2 assms(1)] assms(1) show ?thesis by simp
  qed
qed

text \<open>
  Claim C8. For a reader whose container type is ARRAY, whatever \<^verbatim>\<open>next_item\<close>,
  \<^verbatim>\<open>next_basic\<close>, \<^verbatim>\<open>enter_struct\<close>, \<^verbatim>\<open>enter_array\<close> or \<^verbatim>\<open>enter_variant\<close> returns, the
  reader after the call has the same \<open>sig_pos\<close> and is still an array reader: the
  element signature is read again from the same position for every element.
\<close>

theorem array_reader_keeps_sig_pos:
  assumes "container_type it = DBUS_CONTAINER_TYPE_ARRAY"
  shows
    "(\<forall>r it'. next_item h it = Inr (r, it') \<longrightarrow>
        sig_pos it' = sig_pos it \<and> container_type it' = DBUS_CONTAINER_TYPE_ARRAY) \<and>
     (\<forall>t b it' v. gvariant_iter_next_entry_basic h it t = Inr (b, it', v) \<longrightarrow>
        sig_pos it' = sig_pos it \<and> container_type it' = DBUS_CONTAINER_TYPE_ARRAY) \<and>
     (\<forall>c0 b it' c. gvariant_iter_enter_struct h it c0 = Inr (b, it', c) \<longrightarrow>
        sig_pos it' = sig_pos it \<and> container_type it' = DBUS_CONTAINER_TYPE_ARRAY) \<and>
     (\<forall>c0 b it' c. gvariant_iter_enter_array h it c0 = Inr (b, it', c) \<longrightarrow>
        sig_pos it' = sig_pos it \<and> container_type it' = DBUS_CONTAINER_TYPE_ARRAY) \<and>
     (\<forall>c0 b it' c. gvariant_iter_enter_variant h it c0 = Inr (b, it', c) \<longrightarrow>
        sig_pos it' = sig_pos it \<and> container_type it' = DBUS_CONTAINER_TYPE_ARRAY)"
proof (intro conjI allI impI)
  fix r it' assume "next_item h it = Inr (r, it')"
  show "sig_pos it' = sig_pos it" "container_type it' = DBUS_CONTAINER_TYPE_ARRAY"
    using step_keeps_array_cursor [OF assms, of it' False h] \<open>next_item h it = Inr (r, it')\<close>
    by blast+
next
  fix t b it' v assume "gvariant_iter_next_entry_basic h it t = Inr (b, it', v)"
  from step_keeps_array_cursor [OF assms next_basic_steps [OF this]]
  show "sig_pos it' = sig_pos it" "container_type it' = DBUS_CONTAINER_TYPE_ARRAY" by simp_all
next
  fix c0 b it' c assume "gvariant_iter_enter_struct h it c0 = Inr (b, it', c)"
  from step_keeps_array_cursor [OF assms enter_struct_steps [OF this]]
  show "sig_pos it' = sig_pos it" "container_type it' = DBUS_CONTAINER_TYPE_ARRAY" by simp_all
next
  fix c0 b it' c assume "gvariant_iter_enter_array h it c0 = Inr (b, it', c)"
  from step_keeps_array_cursor [OF assms enter_array_steps [OF this]]
  show "sig_pos it' = sig_pos it" "container_type it' = DBUS_CONTAINER_TYPE_ARRAY" by simp_all
next
  fix c0 b it' c assume "gvariant_iter_enter_variant h it c0 = Inr (b, it', c)"
  from step_keeps_array_cursor [OF assms enter_variant_steps [OF this]]
  show "sig_pos it' = sig_pos it" "container_type it' = DBUS_CONTAINER_TYPE_ARRAY" by simp_all
qed

lemma array_reader_ai_first:
  "gvariant_iter_next_entry_basic frame_ai array_reader_ai (CHR ''i'') =
     Inr (True, array_reader_ai \<lparr> pos := 4 \<rparr>, Some (Int32 1))"
  by (simp add: array_reader_ai_def frame_ai_def sig_eval reader_eval)

theorem array_reader_keeps_sig_pos_witness:
  "container_type array_reader_ai = DBUS_CONTAINER_TYPE_ARRAY \<and>
   gvariant_iter_next_entry_basic frame_ai array_reader_ai (CHR ''i'') =
     Inr (True, array_reader_ai \<lparr> pos := 4 \<rparr>, Some (Int32 1)) \<and>
   sig_pos (array_reader_ai \<lparr> pos := 4 \<rparr>) = sig_pos array_reader_ai \<and>
   container_type (array_reader_ai \<lparr> pos := 4 \<rparr>) = DBUS_CONTAINER_TYPE_ARRAY"
proof -
  have ct: "container_type array_reader_ai = DBUS_CONTAINER_TYPE_ARRAY"
    by (simp add: array_reader_ai_def)
  from array_reader_keeps_sig_pos [OF ct, of frame_ai, THEN conjunct2, THEN conjunct1]
    array_reader_ai_first
  have "sig_pos (array_reader_ai \<lparr> pos := 4 \<rparr>) = sig_pos array_reader_ai \<and>
    container_type (array_reader_ai \<lparr> pos := 4 \<rparr>) = DBUS_CONTAINER_TYPE_ARRAY"
    by (elim allE impE) assumption+
  with ct array_reader_ai_first show ?thesis by simp
qed

section \<open>The empty array of variable-size elements\<close>

lemma frame_asi_init:
  "gvariant_iter_init frame_asi iter0 msg (''asi'' @ [NUL]) None 0 5 =
    Inr (True, iter0 \<lparr> message := msg, sig_start := ''asi'' @ [NUL], sig_len := 3,
      sig_pos := 0, data := 0, len := 5, pos := 0, offsets := Some 4,
      container_type := DBUS_CONTAINER_TYPE_STRUCT \<rparr>)"
  by (simp add: frame_asi_def sig_eval reader_eval)

lemma frame_asi_next_item:
  "next_item frame_asi
     (iter0 \<lparr> message := msg, sig_start := ''asi'' @ [NUL], sig_len := 3,
      sig_pos := 0, data := 0, len := 5, pos := 0, offsets := Some 4,
      container_type := DBUS_CONTAINER_TYPE_STRUCT \<rparr>) =
    Inr (Some (0, 0), iter0 \<lparr> message := msg, sig_start := ''asi'' @ [NUL], sig_len := 3,
      sig_pos := 2, data := 0, len := 5, pos := 0, offsets := Some 3,
      container_type := DBUS_CONTAINER_TYPE_STRUCT \<rparr>)"
  by (simp add: frame_asi_def sig_eval reader_eval)

lemma frame_asi_enter_array:
  "gvariant_iter_enter_array frame_asi
     (iter0 \<lparr> message := msg, sig_start := ''asi'' @ [NUL], sig_len := 3,
      sig_pos := 0, data := 0, len := 5, pos := 0, offsets := Some 4,
      container_type := DBUS_CONTAINER_TYPE_STRUCT \<rparr>) child0 = Inl OutOfBounds"
  by (simp add: frame_asi_def sig_eval reader_eval)

lemma empty_array_init:
  "gvariant_iter_init_internal h child0 msg DBUS_CONTAINER_TYPE_ARRAY (''si'' @ [NUL])
     (Some 1) 0 0 = Inl OutOfBounds"
  by (simp add: sig_eval reader_eval)

text \<open>
  Claim C9 fails on the code. Initialising an ARRAY reader with element signature \<open>s\<close>
  over an empty frame at the start of the buffer reads the word at \<open>data + len - W\<close>,
  one byte before the frame, whatever the buffer holds. The state is reached from a
  well-formed call: entering the empty array of the five-byte struct frame above.
\<close>

theorem empty_variable_array_init_reads_before_frame:
  "gvariant_iter_init_internal h child0 msg DBUS_CONTAINER_TYPE_ARRAY (''si'' @ [NUL])
     (Some 1) 0 0 = Inl OutOfBounds \<and>
   (\<exists>iter1 iter2.
      gvariant_iter_init frame_asi iter0 msg (''asi'' @ [NUL]) None 0 5 = Inr (True, iter1) \<and>
      next_item frame_asi iter1 = Inr (Some (0, 0), iter2) \<and>
      gvariant_iter_enter_array frame_asi iter1 child0 = Inl OutOfBounds)"
  using empty_array_init frame_asi_init frame_asi_next_item frame_asi_enter_array by blast

section \<open>String-like types\<close>

lemma memchr_finds:
  assumes "0 \<le> start" and "NUL \<in> set (take n (drop (nat start) h))"
  shows "\<exists>e. memchr h start n = Inr (Some e)"
proof -
  have n: "n \<noteq> 0"
    using assms(2) by (cases n) simp_all
  have l: "nat start < length h"
    using assms(2) by (cases "nat start < length h") simp_all
  from assms n l show ?thesis by (simp add: memchr_def Let_def)
qed

text \<open>
  Claim C10. For the expected types \<open>s\<close>, \<open>o\<close> and \<open>g\<close> alike, once the guards have
  passed and \<^verbatim>\<open>next_item\<close> has returned the child extent, the result of \<^verbatim>\<open>next_basic\<close> is
  decided by \<^verbatim>\<open>memchr\<close> for \<open>NUL\<close> over the extent alone: false when there is none, true
  with the pointer to the start of the extent when there is one. So any bytes with a
  \<open>NUL\<close> among them are accepted, whatever the type.
\<close>

theorem string_like_types_only_need_a_nul:
  assumes "t = CHR ''s'' \<or> t = CHR ''o'' \<or> t = CHR ''g''"
    and "pos it < len it"
    and "sig_at it = Inr t"
    and "next_item h it = Inr (Some (start, n), it')"
  shows
    "gvariant_iter_next_entry_basic h it t =
       ebind (memchr h start n) (\<lambda>e.
         case e of None \<Rightarrow> Inr (False, it', None)
         | Some _ \<Rightarrow> Inr (True, it', Some (String start))) \<and>
     (0 \<le> start \<and> NUL \<in> set (take n (drop (nat start) h)) \<longrightarrow>
        gvariant_iter_next_entry_basic h it t = Inr (True, it', Some (String start)))"
proof -
  from assms have eq: "gvariant_iter_next_entry_basic h it t =
       ebind (memchr h start n) (\<lambda>e.
         case e of None \<Rightarrow> Inr (False, it', None)
         | Some _ \<Rightarrow> Inr (True, it', Some (String start)))"
    by (auto simp: gvariant_iter_next_entry_basic_def)
  moreover have "gvariant_iter_next_entry_basic h it t = Inr (True, it', Some (String start))"
    if "0 \<le> start" and "NUL \<in> set (take n (drop (nat start) h))"
    using memchr_finds [OF that, of ] eq by auto
  ultimately show ?thesis by blast
qed

lemma reader_g_next_item:
  "next_item [CHR 0xFF, CHR 0xFE, NUL] reader_g =
     Inr (Some (0, 3), reader_g \<lparr> sig_pos := 1, pos := 3 \<rparr>)"
  by (simp add: reader_g_def sig_eval reader_eval)

theorem string_like_types_only_need_a_nul_witness:
  "(CHR ''g'' = CHR ''s'' \<or> CHR ''g'' = CHR ''o'' \<or> CHR ''g'' = CHR ''g'') \<and>
   pos reader_g < len reader_g \<and> sig_at reader_g = Inr (CHR ''g'') \<and>
   next_item [CHR 0xFF, CHR 0xFE, NUL] reader_g =
     Inr (Some (0, 3), reader_g \<lparr> sig_pos := 1, pos := 3 \<rparr>) \<and>
   gvariant_valid_signature [CHR 0xFF, CHR 0xFE, NUL] = Inr False \<and>
   gvariant_iter_next_entry_basic [CHR 0xFF, CHR 0xFE, NUL] reader_g (CHR ''g'') =
     Inr (True, reader_g \<lparr> sig_pos := 1, pos := 3 \<rparr>, Some (String 0))"
proof -
  have a: "CHR ''g'' = CHR ''s'' \<or> CHR ''g'' = CHR ''o'' \<or> CHR ''g'' = CHR ''g''"
    by simp
  have b: "pos reader_g < len reader_g" and c: "sig_at reader_g = Inr (CHR ''g'')"
    by (simp_all add: reader_g_def sig_at_def)
  have d: "(0::int) \<le> 0 \<and> NUL \<in> set (take 3 (drop (nat 0) [CHR 0xFF, CHR 0xFE, NUL]))"
    by simp
  have v: "gvariant_valid_signature [CHR 0xFF, CHR 0xFE, NUL] = Inr False"
    by (simp add: sig_eval)
  from string_like_types_only_need_a_nul [OF a b c reader_g_next_item, THEN conjunct2] d
  have "gvariant_iter_next_entry_basic [CHR 0xFF, CHR 0xFE, NUL] reader_g (CHR ''g'') =
     Inr (True, reader_g \<lparr> sig_pos := 1, pos := 3 \<rparr>, Some (String 0))"
    by (rule mp)
  with a b c v reader_g_next_item show ?thesis by blast
qed

end
